theory Spec2Isabelle
  imports Complex_Main "HOL-Library.Monad_Syntax"
begin

section \<open>The banking ledger of \<^verbatim>\<open>source.c\<close>\<close>

text \<open>
  The program keeps accounts in heap blocks obtained from \<^verbatim>\<open>malloc\<close> and reaches them
  through pointers; the registry is an array of such pointers. The embedding follows
  that shape: structs are records, the heap is a map from addresses to accounts, a
  pointer is \<open>NULL\<close> or an address, and every function takes the heap and returns the
  heap it leaves behind.

  A C execution that reads or writes memory it must not touch (a null or dangling
  pointer, an index outside an array) has undefined behaviour. Such an execution is
  the result \<open>None\<close>; every defined execution is \<open>Some\<close> of what the function returns
  together with the new heap.

  The type \<^verbatim>\<open>double\<close> is the type parameter \<open>'d\<close>. The operations only use \<open>0\<close>,
  \<open>+\<close>, \<open>-\<close>, \<open>\<le>\<close> and \<open><\<close> on it, through the syntactic classes \<open>zero\<close>, \<open>plus\<close>,
  \<open>minus\<close> and \<open>ord\<close>, which assume no law at all. A theorem stated for every such \<open>'d\<close>
  therefore does not depend on how amounts are added or compared, and holds of the
  arithmetic of \<^verbatim>\<open>double\<close> in particular. Where a statement depends on that
  arithmetic, it is settled on the type \<open>double\<close> defined below, a model of IEEE 754
  binary64 with rounding to nearest. Lemmas that need the laws of exact arithmetic say
  so in their type (a group, such as \<open>real\<close>); no claim rests on them.
\<close>

subsection \<open>Constants and data\<close>

abbreviation MAX_TRANSACTIONS :: int where
  "MAX_TRANSACTIONS \<equiv> 10"

abbreviation NAME_LENGTH :: nat where
  "NAME_LENGTH \<equiv> 5"

datatype TransactionType = DEPOSIT | WITHDRAWAL

text \<open>
  \<^verbatim>\<open>char description[10]\<close> and \<^verbatim>\<open>char holderName[NAME_LENGTH]\<close> are byte arrays; they
  are lists of characters here, and \<open>strncpy\<close> below always produces the full array.
  The array \<^verbatim>\<open>transactions[MAX_TRANSACTIONS]\<close> is a list as well; in the program it
  always has \<open>MAX_TRANSACTIONS\<close> slots, which the statements about slots require of
  the list (\<open>log_ok\<close> below). The counters and account numbers are C \<^verbatim>\<open>int\<close>s; the
  program compares them and adds one to a count below \<open>MAX_TRANSACTIONS\<close> only, so
  no operation on them can overflow and they are integers here.
\<close>

record 'd Transaction =
  type :: TransactionType
  amount :: 'd
  description :: string

record 'd BankAccount =
  accountNumber :: int
  holderName :: string
  balance :: 'd
  transactions :: "'d Transaction list"
  transactionCount :: int

datatype ptr = NULL | Ptr nat

type_synonym 'd heap = "nat \<Rightarrow> 'd BankAccount option"

definition deref :: "'d heap \<Rightarrow> ptr \<Rightarrow> 'd BankAccount option" where
  "deref h q = (case q of NULL \<Rightarrow> None | Ptr p \<Rightarrow> h p)"

definition store :: "'d heap \<Rightarrow> ptr \<Rightarrow> 'd BankAccount \<Rightarrow> 'd heap" where
  "store h q a = (case q of NULL \<Rightarrow> h | Ptr p \<Rightarrow> h(p \<mapsto> a))"

text \<open>
  \<^verbatim>\<open>strncpy(dst, src, n)\<close> writes exactly \<open>n\<close> bytes: the characters of the source
  string up to its terminating zero byte, at most \<open>n\<close> of them, and zero bytes after
  them when the source string is shorter than \<open>n\<close>. When the source string has \<open>n\<close>
  characters or more, no zero byte is written. The characters of a C string are those
  before its first zero byte (\<open>visible\<close>).
\<close>

definition visible :: "string \<Rightarrow> string" where
  "visible s = takeWhile (\<lambda>c. c \<noteq> CHR 0x00) s"

definition strncpy :: "string \<Rightarrow> nat \<Rightarrow> string" where
  "strncpy src n = take n (visible src) @ replicate (n - length (visible src)) (CHR 0x00)"

subsection \<open>Operations\<close>

text \<open>
  \<^verbatim>\<open>createAccount\<close>. The outcome of \<^verbatim>\<open>malloc\<close> is an argument: \<open>None\<close> when the
  allocation fails, otherwise the address of the new block and its indeterminate
  contents. The function writes four fields; the transaction slots keep whatever the
  block held.
\<close>

definition createAccount ::
  "('d::zero) heap \<Rightarrow> (nat \<times> 'd BankAccount) option \<Rightarrow> int \<Rightarrow> string \<Rightarrow> ptr \<times> 'd heap" where
  "createAccount h malloc accNum name =
     (case malloc of
        None \<Rightarrow> (NULL, h)
      | Some (p, newAccount) \<Rightarrow>
          (Ptr p,
           h(p \<mapsto> newAccount\<lparr>accountNumber := accNum,
                              holderName := strncpy name NAME_LENGTH,
                              balance := 0,
                              transactionCount := 0\<rparr>)))"

text \<open>
  \<^verbatim>\<open>addTransaction\<close>. The slot written is \<^verbatim>\<open>transactions[transactionCount]\<close>; the guard
  of the source only excludes counts of \<open>MAX_TRANSACTIONS\<close> and more, so a negative
  count is a write before the array.
\<close>

definition addTransaction ::
  "'d heap \<Rightarrow> ptr \<Rightarrow> TransactionType \<Rightarrow> 'd \<Rightarrow> string \<Rightarrow> 'd heap option" where
  "addTransaction h account ty amt desc =
     do {
       a \<leftarrow> deref h account;
       if transactionCount a \<ge> MAX_TRANSACTIONS then Some h
       else if transactionCount a < 0 then None
       else Some (store h account
               (a\<lparr>transactions := (transactions a)[nat (transactionCount a) :=
                                      \<lparr>type = ty, amount = amt, description = strncpy desc 10\<rparr>],
                  transactionCount := transactionCount a + 1\<rparr>))
     }"

definition deposit ::
  "('d::{zero,plus,ord}) heap \<Rightarrow> ptr \<Rightarrow> 'd \<Rightarrow> string \<Rightarrow> (int \<times> 'd heap) option" where
  "deposit h account amt desc =
     (if amt \<le> 0 then Some (- 1, h)
      else do {
        a \<leftarrow> deref h account;
        h' \<leftarrow> addTransaction (store h account (a\<lparr>balance := balance a + amt\<rparr>))
                account DEPOSIT amt desc;
        Some (0, h')
      })"

definition withdraw ::
  "('d::{zero,minus,ord}) heap \<Rightarrow> ptr \<Rightarrow> 'd \<Rightarrow> string \<Rightarrow> (int \<times> 'd heap) option" where
  "withdraw h account amt desc =
     (if amt \<le> 0 then Some (- 1, h)
      else do {
        a \<leftarrow> deref h account;
        if balance a < amt then Some (- 1, h)
        else do {
          h' \<leftarrow> addTransaction (store h account (a\<lparr>balance := balance a - amt\<rparr>))
                  account WITHDRAWAL amt desc;
          Some (0, h')
        }
      })"

text \<open>
  \<^verbatim>\<open>findAccount\<close>: the loop over \<open>i\<close>, from the index given. The array of pointers is
  the list \<open>accounts\<close>; the source trusts \<open>totalAccounts\<close>, so an index beyond the list
  is a read outside the array. The counter never overflows: it is incremented only
  below \<open>totalAccounts\<close>.
\<close>

function findAccount_loop ::
  "'d heap \<Rightarrow> ptr list \<Rightarrow> int \<Rightarrow> int \<Rightarrow> int \<Rightarrow> ptr option" where
  "findAccount_loop h accounts totalAccounts accNum i =
     (if i < totalAccounts then
        (if i < 0 \<or> int (length accounts) \<le> i then None
         else do {
           a \<leftarrow> deref h (accounts ! nat i);
           if accountNumber a = accNum then Some (accounts ! nat i)
           else findAccount_loop h accounts totalAccounts accNum (i + 1)
         })
      else Some NULL)"
  by pat_completeness auto
termination
  by (relation "measure (\<lambda>(h, accounts, totalAccounts, accNum, i). nat (totalAccounts - i))") auto

definition findAccount :: "'d heap \<Rightarrow> ptr list \<Rightarrow> int \<Rightarrow> int \<Rightarrow> ptr option" where
  "findAccount h accounts totalAccounts accNum =
     findAccount_loop h accounts totalAccounts accNum 0"

definition transfer ::
  "('d::{zero,plus,minus,ord}) heap \<Rightarrow> ptr list \<Rightarrow> int \<Rightarrow> int \<Rightarrow> int \<Rightarrow> 'd \<Rightarrow> 'd heap option" where
  "transfer h accounts totalAccounts fromAccNum toAccNum amt =
     do {
       fromAccount \<leftarrow> findAccount h accounts totalAccounts fromAccNum;
       toAccount \<leftarrow> findAccount h accounts totalAccounts toAccNum;
       if fromAccount = NULL \<or> toAccount = NULL then Some h
       else do {
         (rc, h1) \<leftarrow> withdraw h fromAccount amt ''Transfer to'';
         if rc = 0 then do {
           (rc', h2) \<leftarrow> deposit h1 toAccount amt ''Transfer from'';
           Some h2
         }
         else Some h1
       }
     }"

subsection \<open>Clients of the interface\<close>

text \<open>
  A client is any program that calls \<^verbatim>\<open>deposit\<close>, \<^verbatim>\<open>withdraw\<close> and \<^verbatim>\<open>transfer\<close> one
  after the other, as \<^verbatim>\<open>simulateOperations\<close> does. \<open>run\<close> performs such a sequence of
  calls and collects what \<^verbatim>\<open>deposit\<close> and \<^verbatim>\<open>withdraw\<close> return; \<^verbatim>\<open>transfer\<close> returns
  nothing.
\<close>

datatype 'd call =
    Deposit ptr 'd string
  | Withdraw ptr 'd string
  | Transfer "ptr list" int int int 'd

fun run ::
  "('d::{zero,plus,minus,ord}) heap \<Rightarrow> 'd call list \<Rightarrow> (int list \<times> 'd heap) option" where
  "run h [] = Some ([], h)"
| "run h (Deposit q amt desc # cs) =
     do { (rc, h1) \<leftarrow> deposit h q amt desc; (rcs, h2) \<leftarrow> run h1 cs; Some (rc # rcs, h2) }"
| "run h (Withdraw q amt desc # cs) =
     do { (rc, h1) \<leftarrow> withdraw h q amt desc; (rcs, h2) \<leftarrow> run h1 cs; Some (rc # rcs, h2) }"
| "run h (Transfer accounts totalAccounts fromAccNum toAccNum amt # cs) =
     do { h1 \<leftarrow> transfer h accounts totalAccounts fromAccNum toAccNum amt; run h1 cs }"

text \<open>The calls of a sequence that are a deposit to or a withdrawal from the account \<open>q\<close>.\<close>

fun on_account :: "ptr \<Rightarrow> 'd call \<Rightarrow> bool" where
  "on_account q (Deposit q' amt desc) = (q' = q)"
| "on_account q (Withdraw q' amt desc) = (q' = q)"
| "on_account q (Transfer accounts totalAccounts fromAccNum toAccNum amt) = False"

text \<open>The amounts a sequence of calls asks to deposit, and to withdraw, added up.\<close>

fun deposited :: "('d::{zero,plus}) call list \<Rightarrow> 'd" where
  "deposited [] = 0"
| "deposited (Deposit q amt desc # cs) = amt + deposited cs"
| "deposited (c # cs) = deposited cs"

fun withdrawn :: "('d::{zero,plus}) call list \<Rightarrow> 'd" where
  "withdrawn [] = 0"
| "withdrawn (Withdraw q amt desc # cs) = amt + withdrawn cs"
| "withdrawn (c # cs) = withdrawn cs"

text \<open>The records that the deposits and withdrawals of a sequence of calls hand to
  \<^verbatim>\<open>addTransaction\<close>, in order, and the balance the sequence leads to when every
  deposit and withdrawal is carried out in turn.\<close>

fun records :: "'d call list \<Rightarrow> 'd Transaction list" where
  "records [] = []"
| "records (Deposit q amt desc # cs) =
     \<lparr>type = DEPOSIT, amount = amt, description = strncpy desc 10\<rparr> # records cs"
| "records (Withdraw q amt desc # cs) =
     \<lparr>type = WITHDRAWAL, amount = amt, description = strncpy desc 10\<rparr> # records cs"
| "records (c # cs) = records cs"

fun replay :: "('d::{plus,minus}) \<Rightarrow> 'd call list \<Rightarrow> 'd" where
  "replay b [] = b"
| "replay b (Deposit q amt desc # cs) = replay (b + amt) cs"
| "replay b (Withdraw q amt desc # cs) = replay (b - amt) cs"
| "replay b (c # cs) = replay b cs"

text \<open>
  The amounts of the deposits and of the withdrawals of a sequence of calls, in order.
\<close>

fun deposits :: "'d call list \<Rightarrow> 'd list" where
  "deposits [] = []"
| "deposits (Deposit q amt desc # cs) = amt # deposits cs"
| "deposits (c # cs) = deposits cs"

fun withdrawals :: "'d call list \<Rightarrow> 'd list" where
  "withdrawals [] = []"
| "withdrawals (Withdraw q amt desc # cs) = amt # withdrawals cs"
| "withdrawals (c # cs) = withdrawals cs"

text \<open>
  The balance that a list of transaction records leads to from a balance \<open>b\<close> when
  the records are taken in their order: the amount of a deposit is added, the amount of
  a withdrawal is subtracted.
\<close>

fun settle :: "('d::{plus,minus}) \<Rightarrow> 'd Transaction list \<Rightarrow> 'd" where
  "settle b [] = b"
| "settle b (t # ts) =
     settle (case type t of DEPOSIT \<Rightarrow> b + amount t | WITHDRAWAL \<Rightarrow> b - amount t) ts"

text \<open>
  The transactions that a sequence of calls carries out on the account at address
  \<open>p\<close>, in order: one for each deposit to it and each withdrawal from it that returns
  \<open>0\<close>, and for a transfer whose withdrawal returns \<open>0\<close> a withdrawal when it is the
  source and a deposit when it is the destination. Each is given as the record it
  should leave in the log: its kind, its amount and the first ten bytes of its
  description.
\<close>

definition entry :: "TransactionType \<Rightarrow> 'd \<Rightarrow> string \<Rightarrow> 'd Transaction" where
  "entry ty amt desc = \<lparr>type = ty, amount = amt, description = strncpy desc 10\<rparr>"

definition transfer_entries ::
  "('d::{zero,plus,minus,ord}) heap \<Rightarrow> ptr list \<Rightarrow> int \<Rightarrow> int \<Rightarrow> int \<Rightarrow> 'd \<Rightarrow> nat
     \<Rightarrow> 'd Transaction list" where
  "transfer_entries h accounts totalAccounts fromAccNum toAccNum amt p =
     (case (findAccount h accounts totalAccounts fromAccNum,
            findAccount h accounts totalAccounts toAccNum) of
        (Some fromAccount, Some toAccount) \<Rightarrow>
          if fromAccount \<noteq> NULL \<and> toAccount \<noteq> NULL \<and>
             map_option fst (withdraw h fromAccount amt ''Transfer to'') = Some 0
          then (if fromAccount = Ptr p then [entry WITHDRAWAL amt ''Transfer to''] else []) @
               (if toAccount = Ptr p then [entry DEPOSIT amt ''Transfer from''] else [])
          else []
      | _ \<Rightarrow> [])"

fun journal ::
  "('d::{zero,plus,minus,ord}) heap \<Rightarrow> 'd call list \<Rightarrow> nat \<Rightarrow> 'd Transaction list" where
  "journal h [] p = []"
| "journal h (Deposit q amt desc # cs) p =
     (case deposit h q amt desc of
        None \<Rightarrow> []
      | Some (rc, h1) \<Rightarrow>
          (if rc = 0 \<and> q = Ptr p then [entry DEPOSIT amt desc] else []) @ journal h1 cs p)"
| "journal h (Withdraw q amt desc # cs) p =
     (case withdraw h q amt desc of
        None \<Rightarrow> []
      | Some (rc, h1) \<Rightarrow>
          (if rc = 0 \<and> q = Ptr p then [entry WITHDRAWAL amt desc] else []) @ journal h1 cs p)"
| "journal h (Transfer accounts totalAccounts fromAccNum toAccNum amt # cs) p =
     (case transfer h accounts totalAccounts fromAccNum toAccNum amt of
        None \<Rightarrow> []
      | Some h1 \<Rightarrow>
          transfer_entries h accounts totalAccounts fromAccNum toAccNum amt p @ journal h1 cs p)"

text \<open>The net of a list of transaction records: deposits minus withdrawals.\<close>

definition net :: "('d::ab_group_add) Transaction list \<Rightarrow> 'd" where
  "net ts = sum_list (map amount (filter (\<lambda>t. type t = DEPOSIT) ts))
          - sum_list (map amount (filter (\<lambda>t. type t = WITHDRAWAL) ts))"

subsection \<open>Notions used in the statements\<close>

text \<open>
  A registry is the first \<open>totalAccounts\<close> entries of the array; it is valid when the
  array is that long and every one of these entries points to a live account.
  An account number is present when one of these accounts carries it.
\<close>

definition registry :: "ptr list \<Rightarrow> int \<Rightarrow> ptr list" where
  "registry accounts totalAccounts = take (nat totalAccounts) accounts"

definition valid_registry :: "'d heap \<Rightarrow> ptr list \<Rightarrow> int \<Rightarrow> bool" where
  "valid_registry h accounts totalAccounts \<longleftrightarrow>
     totalAccounts \<le> int (length accounts) \<and>
     list_all (\<lambda>q. deref h q \<noteq> None) (registry accounts totalAccounts)"

definition matches :: "'d heap \<Rightarrow> int \<Rightarrow> ptr \<Rightarrow> bool" where
  "matches h accNum q = (case deref h q of None \<Rightarrow> False | Some a \<Rightarrow> accountNumber a = accNum)"

definition present :: "'d heap \<Rightarrow> ptr list \<Rightarrow> int \<Rightarrow> int \<Rightarrow> bool" where
  "present h accounts totalAccounts accNum =
     list_ex (matches h accNum) (registry accounts totalAccounts)"

text \<open>The account as \<^verbatim>\<open>addTransaction\<close> leaves it when the count is not negative.\<close>

definition logged :: "'d BankAccount \<Rightarrow> TransactionType \<Rightarrow> 'd \<Rightarrow> string \<Rightarrow> 'd BankAccount" where
  "logged a ty amt desc =
     (if transactionCount a \<ge> MAX_TRANSACTIONS then a
      else a\<lparr>transactions := (transactions a)[nat (transactionCount a) :=
                                 \<lparr>type = ty, amount = amt, description = strncpy desc 10\<rparr>],
             transactionCount := transactionCount a + 1\<rparr>)"

text \<open>
  The transaction log of an account is in order when the count lies between \<open>0\<close> and
  the capacity and the array has its \<open>MAX_TRANSACTIONS\<close> slots. The recorded
  transactions are the slots below the count.
\<close>

definition log_ok :: "'d BankAccount \<Rightarrow> bool" where
  "log_ok a \<longleftrightarrow> 0 \<le> transactionCount a \<and> transactionCount a \<le> MAX_TRANSACTIONS \<and>
                length (transactions a) = nat MAX_TRANSACTIONS"

definition recorded :: "'d BankAccount \<Rightarrow> 'd Transaction list" where
  "recorded a = take (nat (transactionCount a)) (transactions a)"

definition unused :: "'d BankAccount \<Rightarrow> 'd Transaction list" where
  "unused a = drop (nat (transactionCount a)) (transactions a)"

text \<open>
  An account \<open>a'\<close> is a later state of the log of \<open>a\<close> when both logs are in order, the
  count has not gone down, the slots below the old count are as they were, and so are
  the slots from the new count on.
\<close>

definition grows :: "'d BankAccount \<Rightarrow> 'd BankAccount \<Rightarrow> bool" where
  "grows a a' \<longleftrightarrow>
     log_ok a \<and> log_ok a' \<and> transactionCount a \<le> transactionCount a' \<and>
     take (nat (transactionCount a)) (transactions a') =
       take (nat (transactionCount a)) (transactions a) \<and>
     drop (nat (transactionCount a')) (transactions a') =
       drop (nat (transactionCount a')) (transactions a)"

text \<open>The balance found at an address after an operation that returns a heap.\<close>

definition balance_at :: "'d heap option \<Rightarrow> nat \<Rightarrow> 'd option" where
  "balance_at r p = do { h \<leftarrow> r; a \<leftarrow> h p; Some (balance a) }"

definition count_at :: "'d heap option \<Rightarrow> nat \<Rightarrow> int option" where
  "count_at r p = do { h \<leftarrow> r; a \<leftarrow> h p; Some (transactionCount a) }"

subsection \<open>The arithmetic of \<^verbatim>\<open>double\<close>\<close>

text \<open>
  A \<^verbatim>\<open>double\<close> is an IEEE 754 binary64 number, and \<open>+\<close> and \<open>-\<close> round to nearest,
  ties to even (the default rounding of C). Every finite binary64 number is an integer
  multiple of the smallest positive one, \<^verbatim>\<open>2^-1074\<close>, so a finite number is given by
  that integer: \<open>Finite k\<close> stands for \<open>k\<close> times \<^verbatim>\<open>2^-1074\<close>, and \<open>dbl m\<close> is the
  integer \<open>m\<close> as a \<^verbatim>\<open>double\<close>. The numbers of the format are those \<open>k\<close> that have at
  most 53 significant bits and are smaller in size than \<open>overflow_limit\<close>, which stands
  for the value \<^verbatim>\<open>2^1024\<close>. The two zeros of the format are one value here, and so are
  all its NaNs: comparison, addition and subtraction do not tell them apart in any
  other way.

  The exact sum or difference of two numbers is again a multiple of the unit.
  \<open>round_to_double\<close> rounds it: with at most 53 bits it is a number of the format
  already; with \<open>n > 53\<close> bits it is rounded to the nearest multiple of \<^verbatim>\<open>2^(n-53)\<close>, to
  the even one of two nearest, and a result as large as \<open>overflow_limit\<close> is an
  infinity. Comparisons with a NaN are false, and sums and differences with a NaN are
  NaN, as are \<open>\<infinity> - \<infinity>\<close> and \<open>\<infinity> + (-\<infinity>)\<close>.
\<close>

datatype double = Finite int | PInf | NInf | NaN

function bits :: "int \<Rightarrow> int" where
  "bits k = (if k \<le> 0 then 0 else 1 + bits (k div 2))"
  by pat_completeness auto
termination
  by (relation "measure nat") auto

declare bits.simps [simp del]

definition overflow_limit :: int where
  "overflow_limit = 2 ^ 2098"

definition round_half_even :: "int \<Rightarrow> nat \<Rightarrow> int" where
  "round_half_even k s =
     (let q = k div 2 ^ s; r = k mod 2 ^ s
      in if 2 * r < 2 ^ s then q
         else if 2 ^ s < 2 * r then q + 1
         else if even q then q else q + 1)"

definition round_to_double :: "int \<Rightarrow> double" where
  "round_to_double k =
     (let n = bits \<bar>k\<bar>
      in if n \<le> 53 then Finite k
         else let k' = round_half_even k (nat (n - 53)) * 2 ^ nat (n - 53)
              in if overflow_limit \<le> k' then PInf
                 else if k' \<le> - overflow_limit then NInf
                 else Finite k')"

definition dbl :: "int \<Rightarrow> double" where
  "dbl m = Finite (m * 2 ^ 1074)"

fun is_finite :: "double \<Rightarrow> bool" where
  "is_finite (Finite k) = True"
| "is_finite x = False"

instantiation double :: "{zero,plus,minus,ord}"
begin

definition zero_double :: double where
  "zero_double = Finite 0"

fun plus_double :: "double \<Rightarrow> double \<Rightarrow> double" where
  "plus_double NaN y = NaN"
| "plus_double x NaN = NaN"
| "plus_double PInf NInf = NaN"
| "plus_double NInf PInf = NaN"
| "plus_double PInf y = PInf"
| "plus_double x PInf = PInf"
| "plus_double NInf y = NInf"
| "plus_double x NInf = NInf"
| "plus_double (Finite a) (Finite b) = round_to_double (a + b)"

fun minus_double :: "double \<Rightarrow> double \<Rightarrow> double" where
  "minus_double NaN y = NaN"
| "minus_double x NaN = NaN"
| "minus_double PInf PInf = NaN"
| "minus_double NInf NInf = NaN"
| "minus_double PInf y = PInf"
| "minus_double x NInf = PInf"
| "minus_double NInf y = NInf"
| "minus_double x PInf = NInf"
| "minus_double (Finite a) (Finite b) = round_to_double (a - b)"

fun less_eq_double :: "double \<Rightarrow> double \<Rightarrow> bool" where
  "less_eq_double NaN y = False"
| "less_eq_double x NaN = False"
| "less_eq_double NInf y = True"
| "less_eq_double x PInf = True"
| "less_eq_double PInf y = False"
| "less_eq_double x NInf = False"
| "less_eq_double (Finite a) (Finite b) = (a \<le> b)"

fun less_double :: "double \<Rightarrow> double \<Rightarrow> bool" where
  "less_double NaN y = False"
| "less_double x NaN = False"
| "less_double PInf y = False"
| "less_double x NInf = False"
| "less_double NInf y = True"
| "less_double x PInf = True"
| "less_double (Finite a) (Finite b) = (a < b)"

instance ..

end

subsection \<open>Concrete accounts\<close>

text \<open>
  A block with arbitrary contents, as \<^verbatim>\<open>malloc\<close> may return it, and three accounts
  at the addresses 0, 1 and 2 with the numbers, names and balances that
  \<^verbatim>\<open>simulateOperations\<close> gives its accounts; \<open>fresh\<close> sets the fields that
  \<^verbatim>\<open>createAccount\<close> writes, with a balance and a count to choose.
\<close>

definition junk :: "real Transaction" where
  "junk = \<lparr>type = WITHDRAWAL, amount = 7, description = ''??????????''\<rparr>"

definition block :: "real BankAccount" where
  "block = \<lparr>accountNumber = - 1, holderName = ''?????'', balance = 99,
            transactions = [junk, junk, junk, junk, junk, junk, junk, junk, junk, junk],
            transactionCount = 12\<rparr>"

definition fresh :: "int \<Rightarrow> string \<Rightarrow> real \<Rightarrow> int \<Rightarrow> real BankAccount" where
  "fresh accNum name b n =
     block\<lparr>accountNumber := accNum, holderName := strncpy name NAME_LENGTH,
           balance := b, transactionCount := n\<rparr>"

definition bank :: "real heap" where
  "bank = [0 \<mapsto> fresh 1001 ''Alice'' 500 1, 1 \<mapsto> fresh 1002 ''Bob'' 1000 1,
           2 \<mapsto> fresh 1003 ''Charlie'' 750 1]"

definition full_bank :: "real heap" where
  "full_bank = [0 \<mapsto> fresh 1001 ''Alice'' 500 10]"

definition bank_accounts :: "ptr list" where
  "bank_accounts = [Ptr 0, Ptr 1, Ptr 2]"

text \<open>
  The heap after \<^verbatim>\<open>createAccount(1004, "Dave")\<close> has been given a block at address 3,
  the registry of the four accounts, and calls of a client.
\<close>

definition bank_dave :: "real heap" where
  "bank_dave = snd (createAccount bank (Some (3, block)) 1004 ''Dave'')"

definition mixed_calls :: "real call list" where
  "mixed_calls = [Deposit (Ptr 3) 40 ''gift'',
                  Transfer [Ptr 0, Ptr 1, Ptr 2, Ptr 3] 4 1001 1004 150,
                  Withdraw (Ptr 3) 500 ''too much'']"

definition later_calls :: "real call list" where
  "later_calls = [Withdraw (Ptr 3) 10 ''coffee'',
                  Transfer [Ptr 0, Ptr 1, Ptr 2, Ptr 3] 4 1004 1002 100]"

text \<open>
  The scenario of \<^verbatim>\<open>simulateOperations\<close> up to its transfer: three accounts created
  in blocks at the addresses 0, 1 and 2, then the calls of the function in their order.
\<close>

definition opened :: "real heap" where
  "opened =
     snd (createAccount
       (snd (createAccount
         (snd (createAccount Map.empty (Some (0, block)) 1001 ''Alice''))
         (Some (1, block)) 1002 ''Bob''))
       (Some (2, block)) 1003 ''Charlie'')"

definition scenario :: "real call list" where
  "scenario = [Deposit (Ptr 0) 500 ''Initial'', Deposit (Ptr 1) 1000 ''Initial'',
               Deposit (Ptr 2) 750 ''Initial'', Withdraw (Ptr 1) 200 ''withdrawal'',
               Withdraw (Ptr 2) 50 ''shopping'', Transfer bank_accounts 3 1001 1003 150]"

text \<open>
  Accounts whose amounts are of type \<open>double\<close>: a block with arbitrary contents, the
  heap after \<^verbatim>\<open>createAccount(1001, "Alice")\<close> has been given that block at address 0,
  two sequences of calls with the same deposits and the same withdrawal, and a heap
  with one account that holds 500.
\<close>

definition djunk :: "double Transaction" where
  "djunk = \<lparr>type = WITHDRAWAL, amount = dbl 7, description = ''??????????''\<rparr>"

definition dblock :: "double BankAccount" where
  "dblock = \<lparr>accountNumber = - 1, holderName = ''?????'', balance = dbl 99,
             transactions = [djunk, djunk, djunk, djunk, djunk, djunk, djunk, djunk, djunk, djunk],
             transactionCount = 12\<rparr>"

definition dopened :: "double heap" where
  "dopened = snd (createAccount Map.empty (Some (0, dblock)) 1001 ''Alice'')"

definition withdraw_last :: "double call list" where
  "withdraw_last = [Deposit (Ptr 0) (dbl 10000000000000000) ''Initial'',
                    Deposit (Ptr 0) (dbl 1) ''gift'',
                    Withdraw (Ptr 0) (dbl 10000000000000000) ''shopping'']"

definition withdraw_between :: "double call list" where
  "withdraw_between = [Deposit (Ptr 0) (dbl 10000000000000000) ''Initial'',
                       Withdraw (Ptr 0) (dbl 10000000000000000) ''shopping'',
                       Deposit (Ptr 0) (dbl 1) ''gift'']"

definition dbank :: "double heap" where
  "dbank = [0 \<mapsto> dblock\<lparr>accountNumber := 1001, holderName := strncpy ''Alice'' NAME_LENGTH,
                           balance := dbl 500, transactionCount := 1\<rparr>]"

text \<open>The same registry when two accounts carry the number 1002.\<close>

definition twins :: "real heap" where
  "twins = [0 \<mapsto> fresh 1001 ''Alice'' 500 1, 1 \<mapsto> fresh 1002 ''Bob'' 1000 1,
            2 \<mapsto> fresh 1002 ''Robert'' 5 1]"

text \<open>The heap \<open>bank\<close> after 150 has left the first account, and after it has reached
  the third.\<close>

definition bank_withdrawn :: "real heap" where
  "bank_withdrawn =
     bank(0 \<mapsto> (fresh 1001 ''Alice'' 350 2)
                 \<lparr>transactions := [junk, \<lparr>type = WITHDRAWAL, amount = 150, description = ''Transfer t''\<rparr>,
                                   junk, junk, junk, junk, junk, junk, junk, junk]\<rparr>)"

definition bank_transferred :: "real heap" where
  "bank_transferred =
     bank_withdrawn(2 \<mapsto> (fresh 1003 ''Charlie'' 900 2)
                 \<lparr>transactions := [junk, \<lparr>type = DEPOSIT, amount = 150, description = ''Transfer f''\<rparr>,
                                   junk, junk, junk, junk, junk, junk, junk, junk]\<rparr>)"

section \<open>Properties\<close>

subsection \<open>Pointers and the single operations\<close>

lemma deref_Ptr [simp]: "deref h (Ptr p) = h p"
  by (simp add: deref_def)

lemma deref_NULL [simp]: "deref h NULL = None"
  by (simp add: deref_def)

lemma store_Ptr [simp]: "store h (Ptr p) a = h(p \<mapsto> a)"
  by (simp add: store_def)

lemma deref_Some_Ptr: "deref h q = Some a \<Longrightarrow> \<exists>p. q = Ptr p \<and> h p = Some a"
  by (cases q) simp_all

lemma addTransaction_valid:
  "h p = Some a \<Longrightarrow> 0 \<le> transactionCount a \<Longrightarrow>
   addTransaction h (Ptr p) ty amt desc = Some (h(p \<mapsto> logged a ty amt desc))"
  by (auto simp: addTransaction_def logged_def)

lemma addTransaction_Some:
  assumes "addTransaction h q ty amt desc = Some h'"
  shows "\<exists>p a. q = Ptr p \<and> h p = Some a \<and> 0 \<le> transactionCount a \<and>
               h' = h(p \<mapsto> logged a ty amt desc)"
proof -
  from assms obtain a where a: "deref h q = Some a"
    by (auto simp: addTransaction_def split: Option.bind_splits)
  then obtain p where p: "q = Ptr p" "h p = Some a"
    by (auto dest: deref_Some_Ptr)
  show ?thesis
  proof (cases "transactionCount a \<ge> MAX_TRANSACTIONS")
    case True
    with assms p have "h' = h" "logged a ty amt desc = a"
      by (simp_all add: addTransaction_def logged_def)
    with p True show ?thesis
      by (simp add: map_upd_triv)
  next
    case False
    with assms p have "0 \<le> transactionCount a"
      by (simp add: addTransaction_def split: if_splits)
    with assms p show ?thesis
      by (simp add: addTransaction_valid)
  qed
qed

lemma deposit_valid:
  "h p = Some a \<Longrightarrow> 0 \<le> transactionCount a \<Longrightarrow> \<not> amt \<le> 0 \<Longrightarrow>
   deposit h (Ptr p) amt desc =
     Some (0, h(p \<mapsto> logged (a\<lparr>balance := balance a + amt\<rparr>) DEPOSIT amt desc))"
  by (simp add: deposit_def addTransaction_valid)

lemma withdraw_valid:
  "h p = Some a \<Longrightarrow> 0 \<le> transactionCount a \<Longrightarrow> \<not> amt \<le> 0 \<Longrightarrow> \<not> balance a < amt \<Longrightarrow>
   withdraw h (Ptr p) amt desc =
     Some (0, h(p \<mapsto> logged (a\<lparr>balance := balance a - amt\<rparr>) WITHDRAWAL amt desc))"
  by (simp add: withdraw_def addTransaction_valid)

lemma deposit_Some:
  "deposit h q amt desc = Some (rc, h') \<Longrightarrow>
     (rc = - 1 \<and> amt \<le> 0 \<and> h' = h) \<or>
     (rc = 0 \<and> \<not> amt \<le> 0 \<and>
      (\<exists>p a. q = Ptr p \<and> h p = Some a \<and> 0 \<le> transactionCount a \<and>
             h' = h(p \<mapsto> logged (a\<lparr>balance := balance a + amt\<rparr>) DEPOSIT amt desc)))"
  by (cases q) (auto simp: deposit_def split: if_splits Option.bind_splits dest!: addTransaction_Some)

lemma withdraw_Some:
  "withdraw h q amt desc = Some (rc, h') \<Longrightarrow>
     (rc = - 1 \<and> h' = h \<and> (amt \<le> 0 \<or> (\<exists>a. deref h q = Some a \<and> balance a < amt))) \<or>
     (rc = 0 \<and> \<not> amt \<le> 0 \<and>
      (\<exists>p a. q = Ptr p \<and> h p = Some a \<and> \<not> balance a < amt \<and> 0 \<le> transactionCount a \<and>
             h' = h(p \<mapsto> logged (a\<lparr>balance := balance a - amt\<rparr>) WITHDRAWAL amt desc)))"
  by (cases q) (auto simp: withdraw_def split: if_splits Option.bind_splits dest!: addTransaction_Some)


lemma findAccount_loop_find:
  assumes "valid_registry h accounts n" "0 \<le> i"
  shows "findAccount_loop h accounts n accNum i =
           Some (case find (matches h accNum) (drop (nat i) (registry accounts n)) of
                   None \<Rightarrow> NULL | Some q \<Rightarrow> q)"
  using assms
proof (induction h accounts n accNum i rule: findAccount_loop.induct)
  case (1 h accounts totalAccounts accNum i)
  show ?case
  proof (cases "i < totalAccounts")
    case False
    then have "drop (nat i) (registry accounts totalAccounts) = []"
      by (simp add: registry_def)
    with False show ?thesis
      by (subst findAccount_loop.simps) simp
  next
    case True
    with "1.prems" have len: "nat i < length (registry accounts totalAccounts)"
      and inb: "i < int (length accounts)"
      by (auto simp: valid_registry_def registry_def)
    have nth: "registry accounts totalAccounts ! nat i = accounts ! nat i"
      using True "1.prems" by (simp add: registry_def)
    from len have dr: "drop (nat i) (registry accounts totalAccounts) =
        accounts ! nat i # drop (nat (i + 1)) (registry accounts totalAccounts)"
      using "1.prems" Cons_nth_drop_Suc [OF len] nth by (simp add: nat_add_distrib)
    from "1.prems" len nth obtain a where a: "deref h (accounts ! nat i) = Some a"
      by (fastforce simp: valid_registry_def list_all_length)
    show ?thesis
    proof (cases "accountNumber a = accNum")
      case True
      with a inb \<open>i < totalAccounts\<close> "1.prems" dr show ?thesis
        by (subst findAccount_loop.simps) (simp add: matches_def)
    next
      case False
      have "findAccount_loop h accounts totalAccounts accNum (i + 1) =
              Some (case find (matches h accNum) (drop (nat (i + 1)) (registry accounts totalAccounts)) of
                      None \<Rightarrow> NULL | Some q \<Rightarrow> q)"
        using "1.IH" [OF \<open>i < totalAccounts\<close> _ a False] inb "1.prems" by simp
      with a inb \<open>i < totalAccounts\<close> "1.prems" dr False show ?thesis
        by (subst findAccount_loop.simps) (simp add: matches_def)
    qed
  qed
qed

lemma findAccount_find:
  "valid_registry h accounts n \<Longrightarrow>
   findAccount h accounts n accNum =
     Some (case find (matches h accNum) (registry accounts n) of None \<Rightarrow> NULL | Some q \<Rightarrow> q)"
  using findAccount_loop_find [of h accounts n 0 accNum] by (simp add: findAccount_def)

lemma findAccount_loop_Ptr:
  "findAccount_loop h accounts n accNum i = Some (Ptr p) \<Longrightarrow>
   \<exists>a. h p = Some a \<and> accountNumber a = accNum"
proof (induction h accounts n accNum i rule: findAccount_loop.induct)
  case (1 h accounts totalAccounts accNum i)
  from "1.prems" have lt: "i < totalAccounts"
    and inb: "\<not> (i < 0 \<or> int (length accounts) \<le> i)"
    by (subst (asm) findAccount_loop.simps, simp split: if_splits)+
  from "1.prems" lt inb obtain a where a: "deref h (accounts ! nat i) = Some a"
    by (subst (asm) findAccount_loop.simps) (auto split: Option.bind_splits)
  show ?case
  proof (cases "accountNumber a = accNum")
    case True
    with "1.prems" lt inb a have "accounts ! nat i = Ptr p"
      by (subst (asm) findAccount_loop.simps) simp
    with a True show ?thesis by simp
  next
    case False
    with "1.prems" lt inb a
    have "findAccount_loop h accounts totalAccounts accNum (i + 1) = Some (Ptr p)"
      by (subst (asm) findAccount_loop.simps) simp
    from "1.IH" [OF lt inb a False this] show ?thesis .
  qed
qed

lemma findAccount_Ptr:
  "findAccount h accounts n accNum = Some (Ptr p) \<Longrightarrow>
   \<exists>a. h p = Some a \<and> accountNumber a = accNum"
  unfolding findAccount_def by (rule findAccount_loop_Ptr)

lemma registry_nth:
  "n \<le> int (length accounts) \<Longrightarrow> 0 \<le> i \<Longrightarrow> i < n \<Longrightarrow>
   registry accounts n ! nat i = accounts ! nat i"
  by (simp add: registry_def)

lemma registry_length:
  "n \<le> int (length accounts) \<Longrightarrow> length (registry accounts n) = nat n"
  by (simp add: registry_def)

lemma findAccount_absent:
  "valid_registry h accounts n \<Longrightarrow> \<not> present h accounts n accNum \<Longrightarrow>
   findAccount h accounts n accNum = Some NULL"
proof -
  assume v: "valid_registry h accounts n" and "\<not> present h accounts n accNum"
  then have "find (matches h accNum) (registry accounts n) = None"
    by (simp add: present_def find_None_iff list_ex_iff)
  with v show ?thesis by (simp add: findAccount_find)
qed

lemma findAccount_defined:
  "valid_registry h accounts n \<Longrightarrow> \<exists>q. findAccount h accounts n accNum = Some q"
  by (simp add: findAccount_find)

lemma recorded_logged:
  assumes "log_ok a"
  shows "recorded (logged a ty amt desc) =
           (if transactionCount a < MAX_TRANSACTIONS
            then recorded a @ [\<lparr>type = ty, amount = amt, description = strncpy desc 10\<rparr>]
            else recorded a)"
proof (cases "transactionCount a < MAX_TRANSACTIONS")
  case True
  with assms have n: "nat (transactionCount a) < length (transactions a)"
    by (simp add: log_ok_def)
  from assms have s: "nat (transactionCount a + 1) = Suc (nat (transactionCount a))"
    by (simp add: log_ok_def nat_add_distrib)
  from True n show ?thesis
    by (simp add: recorded_def logged_def s take_Suc_conv_app_nth)
next
  case False
  then show ?thesis by (simp add: logged_def)
qed


lemma logged_count_nonneg:
  "0 \<le> transactionCount a \<Longrightarrow> 0 \<le> transactionCount (logged a ty amt desc)"
  by (simp add: logged_def)

lemma balance_logged [simp]: "balance (logged a ty amt desc) = balance a"
  by (simp add: logged_def)

lemma recorded_balance [simp]: "recorded (a\<lparr>balance := b\<rparr>) = recorded a"
  by (simp add: recorded_def)

lemma log_ok_balance [simp]: "log_ok (a\<lparr>balance := b\<rparr>) = log_ok a"
  by (simp add: log_ok_def)

lemma transfer_distinct:
  assumes "findAccount h accounts n fromAccNum = Some (Ptr pf)"
    and "findAccount h accounts n toAccNum = Some (Ptr pt)"
    and "h pf = Some a_from" and "h pt = Some a_to" and "pf \<noteq> pt"
    and "\<not> amt \<le> 0" and "\<not> balance a_from < amt"
    and "0 \<le> transactionCount a_from" and "0 \<le> transactionCount a_to"
  shows "transfer h accounts n fromAccNum toAccNum amt =
           Some (h(pf \<mapsto> logged (a_from\<lparr>balance := balance a_from - amt\<rparr>) WITHDRAWAL amt ''Transfer to'',
                   pt \<mapsto> logged (a_to\<lparr>balance := balance a_to + amt\<rparr>) DEPOSIT amt ''Transfer from''))"
proof -
  let ?h1 = "h(pf \<mapsto> logged (a_from\<lparr>balance := balance a_from - amt\<rparr>) WITHDRAWAL amt ''Transfer to'')"
  from assms have w: "withdraw h (Ptr pf) amt ''Transfer to'' = Some (0, ?h1)"
    by (simp add: withdraw_valid)
  from assms have "?h1 pt = Some a_to" by simp
  with assms have d: "deposit ?h1 (Ptr pt) amt ''Transfer from'' =
      Some (0, ?h1(pt \<mapsto> logged (a_to\<lparr>balance := balance a_to + amt\<rparr>) DEPOSIT amt ''Transfer from''))"
    by (simp add: deposit_valid)
  from assms(1,2) w d show ?thesis
    by (simp add: transfer_def)
qed

lemma transfer_self:
  assumes "findAccount h accounts n accNum = Some (Ptr p)"
    and "h p = Some a" and "\<not> amt \<le> 0" and "\<not> balance a < amt"
    and "0 \<le> transactionCount a"
  shows "transfer h accounts n accNum accNum amt =
           Some (h(p \<mapsto> logged ((logged (a\<lparr>balance := balance a - amt\<rparr>) WITHDRAWAL amt ''Transfer to'')
                                  \<lparr>balance := balance a - amt + amt\<rparr>) DEPOSIT amt ''Transfer from''))"
proof -
  let ?a1 = "logged (a\<lparr>balance := balance a - amt\<rparr>) WITHDRAWAL amt ''Transfer to''"
  let ?h1 = "h(p \<mapsto> ?a1)"
  from assms have w: "withdraw h (Ptr p) amt ''Transfer to'' = Some (0, ?h1)"
    by (simp add: withdraw_valid)
  have b: "balance ?a1 = balance a - amt" by (simp add: logged_def)
  have "?h1 p = Some ?a1" by simp
  moreover from assms have "0 \<le> transactionCount ?a1" by (simp add: logged_count_nonneg)
  ultimately have d: "deposit ?h1 (Ptr p) amt ''Transfer from'' =
      Some (0, ?h1(p \<mapsto> logged (?a1\<lparr>balance := balance ?a1 + amt\<rparr>) DEPOSIT amt ''Transfer from''))"
    using assms(3) by (rule deposit_valid)
  from assms(1) w d show ?thesis
    by (simp add: transfer_def b)
qed

lemma transfer_Some:
  assumes t: "transfer h accounts n fromAccNum toAccNum amt = Some h'"
  shows "h' = h \<or>
      (\<exists>fromAccount toAccount h1.
          findAccount h accounts n fromAccNum = Some fromAccount \<and>
          findAccount h accounts n toAccNum = Some toAccount \<and>
          withdraw h fromAccount amt ''Transfer to'' = Some (0, h1) \<and>
          deposit h1 toAccount amt ''Transfer from'' = Some (0, h'))"
proof -
  from t obtain qf qt where
    qf: "findAccount h accounts n fromAccNum = Some qf" and
    qt: "findAccount h accounts n toAccNum = Some qt"
    by (auto simp: transfer_def split: Option.bind_splits)
  show ?thesis
  proof (cases "qf = NULL \<or> qt = NULL")
    case True
    with t qf qt show ?thesis by (auto simp: transfer_def)
  next
    case False
    with t qf qt obtain rc h1 where
      w: "withdraw h qf amt ''Transfer to'' = Some (rc, h1)"
      by (auto simp: transfer_def split: Option.bind_splits)
    show ?thesis
    proof (cases "rc = 0")
      case rc0: True
      with t qf qt False w obtain rc' where
        d: "deposit h1 qt amt ''Transfer from'' = Some (rc', h')"
        by (auto simp: transfer_def split: Option.bind_splits)
      from withdraw_Some [OF w] rc0 have "\<not> amt \<le> 0" by simp
      with deposit_Some [OF d] have "rc' = 0" by simp
      with qf qt w d rc0 show ?thesis by blast
    next
      case rcn: False
      with withdraw_Some [OF w] have "h1 = h" by simp
      moreover from t qf qt False w rcn have "h' = h1"
        by (simp add: transfer_def)
      ultimately show ?thesis by simp
    qed
  qed
qed

subsection \<open>The concrete accounts\<close>

lemma bank_valid: "valid_registry bank bank_accounts 3"
  by (simp add: valid_registry_def registry_def bank_accounts_def bank_def)

lemma bank_find_1001: "findAccount bank bank_accounts 3 1001 = Some (Ptr 0)"
  by code_simp

lemma bank_find_1003: "findAccount bank bank_accounts 3 1003 = Some (Ptr 2)"
  by code_simp

lemma bank_absent: "\<not> present bank bank_accounts 3 4242"
  by (simp add: present_def registry_def bank_accounts_def matches_def bank_def fresh_def)

lemma bank_withdraw_150:
  "withdraw bank (Ptr 0) 150 ''Transfer to'' = Some (0, bank_withdrawn)"
proof -
  have "bank 0 = Some (fresh 1001 ''Alice'' 500 1)" by (simp add: bank_def)
  moreover have "0 \<le> transactionCount (fresh 1001 ''Alice'' 500 1)"
    "\<not> (150::real) \<le> 0" "\<not> balance (fresh 1001 ''Alice'' 500 1) < 150"
    by (simp_all add: fresh_def)
  ultimately have w: "withdraw bank (Ptr 0) 150 ''Transfer to'' =
     Some (0, bank(0 \<mapsto> logged ((fresh 1001 ''Alice'' 500 1)\<lparr>balance := balance (fresh 1001 ''Alice'' 500 1) - 150\<rparr>)
                            WITHDRAWAL 150 ''Transfer to''))"
    by (rule withdraw_valid)
  have eq: "logged ((fresh 1001 ''Alice'' 500 1)\<lparr>balance := balance (fresh 1001 ''Alice'' 500 1) - 150\<rparr>)
                            WITHDRAWAL 150 ''Transfer to'' =
       (fresh 1001 ''Alice'' 350 2)
                 \<lparr>transactions := [junk, \<lparr>type = WITHDRAWAL, amount = 150, description = ''Transfer t''\<rparr>,
                                   junk, junk, junk, junk, junk, junk, junk, junk]\<rparr>"
    by (simp add: logged_def fresh_def block_def strncpy_def visible_def)
  from w show ?thesis unfolding bank_withdrawn_def eq .
qed


lemma bank_deposit_150:
  "deposit bank_withdrawn (Ptr 2) 150 ''Transfer from'' = Some (0, bank_transferred)"
proof -
  have "bank_withdrawn 2 = Some (fresh 1003 ''Charlie'' 750 1)"
    by (simp add: bank_withdrawn_def bank_def)
  moreover have "0 \<le> transactionCount (fresh 1003 ''Charlie'' 750 1)" "\<not> (150::real) \<le> 0"
    by (simp_all add: fresh_def)
  ultimately have d: "deposit bank_withdrawn (Ptr 2) 150 ''Transfer from'' =
     Some (0, bank_withdrawn(2 \<mapsto> logged ((fresh 1003 ''Charlie'' 750 1)\<lparr>balance := balance (fresh 1003 ''Charlie'' 750 1) + 150\<rparr>)
                            DEPOSIT 150 ''Transfer from''))"
    by (rule deposit_valid)
  have eq: "logged ((fresh 1003 ''Charlie'' 750 1)\<lparr>balance := balance (fresh 1003 ''Charlie'' 750 1) + 150\<rparr>)
                            DEPOSIT 150 ''Transfer from'' =
       (fresh 1003 ''Charlie'' 900 2)
                 \<lparr>transactions := [junk, \<lparr>type = DEPOSIT, amount = 150, description = ''Transfer f''\<rparr>,
                                   junk, junk, junk, junk, junk, junk, junk, junk]\<rparr>"
    by (simp add: logged_def fresh_def block_def strncpy_def visible_def)
  from d show ?thesis unfolding bank_transferred_def eq .
qed

lemma bank_transfer_150:
  "transfer bank bank_accounts 3 1001 1003 150 = Some bank_transferred"
  by (simp add: transfer_def bank_find_1001 bank_find_1003 bank_withdraw_150 bank_deposit_150)

lemma twins_valid: "valid_registry twins bank_accounts 3"
  by (simp add: valid_registry_def registry_def bank_accounts_def twins_def)

lemma twins_matches:
  "\<not> matches twins 1002 (Ptr 0)" "matches twins 1002 (Ptr 1)" "matches twins 1002 (Ptr 2)"
  "\<not> matches twins 4242 (Ptr 0)" "\<not> matches twins 4242 (Ptr 1)" "\<not> matches twins 4242 (Ptr 2)"
  by (simp_all add: matches_def twins_def fresh_def)

lemma bank_accounts_at:
  "bank 0 = Some (fresh 1001 ''Alice'' 500 1)" "bank 2 = Some (fresh 1003 ''Charlie'' 750 1)"
  by (simp_all add: bank_def)

lemma fresh_log_ok: "0 \<le> n \<Longrightarrow> n \<le> MAX_TRANSACTIONS \<Longrightarrow> log_ok (fresh accNum name b n)"
  by (simp add: log_ok_def fresh_def block_def)

text \<open>
  The scenario of \<^verbatim>\<open>simulateOperations\<close> runs as the specification describes it:
  every call succeeds and the balances end at 350, 800 and 850, with two, two and three
  transactions recorded.
\<close>

lemma scenario_balances:
  "map_option fst (run opened scenario) = Some [0, 0, 0, 0, 0] \<and>
   balance_at (map_option snd (run opened scenario)) 0 = Some 350 \<and>
   balance_at (map_option snd (run opened scenario)) 1 = Some 800 \<and>
   balance_at (map_option snd (run opened scenario)) 2 = Some 850 \<and>
   count_at (map_option snd (run opened scenario)) 0 = Some 2 \<and>
   count_at (map_option snd (run opened scenario)) 1 = Some 2 \<and>
   count_at (map_option snd (run opened scenario)) 2 = Some 3"
  by code_simp

subsection \<open>Validation failures\<close>

text \<open>
  C1. A deposit whose amount is not positive (\<open>amt \<le> 0\<close>), and a withdrawal whose
  amount is not positive or exceeds the balance of the account (\<open>balance a < amt\<close>),
  return the failure code \<open>-1\<close> and leave the whole heap as it was: the balance, the
  transaction log and the transaction count of the account, and every other account.
  The code is distinct from the code of a success: whenever one of the two functions
  returns, it returns \<open>-1\<close> or \<open>0\<close>, and \<open>-1\<close> exactly when the validation failed.
  This holds whatever the arithmetic of amounts is.
\<close>

theorem validation_failure_no_change:
  "(amt \<le> 0 \<longrightarrow> deposit h account amt desc = Some (- 1, h) \<and>
                 withdraw h account amt desc = Some (- 1, h)) \<and>
   (deref h account = Some a \<and> balance a < amt \<longrightarrow>
      withdraw h account amt desc = Some (- 1, h)) \<and>
   (deposit h account amt desc = Some (rc, h') \<longrightarrow>
      (rc = - 1 \<or> rc = 0) \<and> (rc = - 1 \<longleftrightarrow> amt \<le> 0)) \<and>
   (withdraw h account amt desc = Some (rc, h') \<longrightarrow>
      (rc = - 1 \<or> rc = 0) \<and>
      (rc = - 1 \<longleftrightarrow> amt \<le> 0 \<or> (\<exists>b. deref h account = Some b \<and> balance b < amt)))"
proof (intro conjI impI)
  assume "amt \<le> 0"
  then show "deposit h account amt desc = Some (- 1, h)"
    by (simp add: deposit_def)
  from \<open>amt \<le> 0\<close> show "withdraw h account amt desc = Some (- 1, h)"
    by (simp add: withdraw_def)
next
  assume "deref h account = Some a \<and> balance a < amt"
  then show "withdraw h account amt desc = Some (- 1, h)"
    by (simp add: withdraw_def)
next
  assume d: "deposit h account amt desc = Some (rc, h')"
  from deposit_Some [OF d] show "rc = - 1 \<or> rc = 0" by auto
  from deposit_Some [OF d] show "rc = - 1 \<longleftrightarrow> amt \<le> 0" by auto
next
  assume w: "withdraw h account amt desc = Some (rc, h')"
  from withdraw_Some [OF w] show "rc = - 1 \<or> rc = 0" by auto
  from withdraw_Some [OF w]
  show "rc = - 1 \<longleftrightarrow> amt \<le> 0 \<or> (\<exists>b. deref h account = Some b \<and> balance b < amt)"
    by auto
qed

theorem validation_failure_no_change_witness:
  "(- 5 :: real) \<le> 0 \<and>
   deposit bank (Ptr 0) (- 5) ''gift'' = Some (- 1, bank) \<and>
   withdraw bank (Ptr 0) (- 5) ''gift'' = Some (- 1, bank) \<and>
   deref bank (Ptr 0) = Some (fresh 1001 ''Alice'' 500 1) \<and>
   balance (fresh 1001 ''Alice'' 500 1) < 600 \<and>
   withdraw bank (Ptr 0) 600 ''rent'' = Some (- 1, bank)"
proof -
  have neg: "(- 5 :: real) \<le> 0" by simp
  have acc: "deref bank (Ptr 0) = Some (fresh 1001 ''Alice'' 500 1)"
    by (simp add: bank_def)
  have low: "balance (fresh 1001 ''Alice'' 500 1) < 600"
    by (simp add: fresh_def)
  from neg validation_failure_no_change [of "- 5" bank "Ptr 0" "''gift''"
      "fresh 1001 ''Alice'' 500 1" "- 1" bank]
  have a: "deposit bank (Ptr 0) (- 5) ''gift'' = Some (- 1, bank) \<and>
           withdraw bank (Ptr 0) (- 5) ''gift'' = Some (- 1, bank)"
    by blast
  from acc low
    validation_failure_no_change [of 600 bank "Ptr 0" "''rent''" "fresh 1001 ''Alice'' 500 1"
      "- 1" bank]
  have b: "withdraw bank (Ptr 0) 600 ''rent'' = Some (- 1, bank)"
    by blast
  from neg acc low a b show ?thesis by blast
qed

subsection \<open>Creating an account\<close>

lemma visible_no_zero: "CHR 0x00 \<notin> set (visible s)"
  unfolding visible_def by (induction s) auto

lemma visible_append_zeros:
  "CHR 0x00 \<notin> set s \<Longrightarrow> visible (s @ replicate k (CHR 0x00)) = s"
  unfolding visible_def by (induction s) (auto simp: takeWhile_eq_Nil_iff)

lemma length_strncpy: "length (strncpy src n) = n"
  by (simp add: strncpy_def)

lemma visible_strncpy: "visible (strncpy src n) = take n (visible src)"
proof -
  have "CHR 0x00 \<notin> set (take n (visible src))"
    using visible_no_zero [of src] by (auto dest: in_set_takeD)
  then show ?thesis
    unfolding strncpy_def by (rule visible_append_zeros)
qed

lemma strncpy_terminated:
  "CHR 0x00 \<in> set (strncpy src n) \<longleftrightarrow> length (visible src) < n"
proof -
  have "CHR 0x00 \<notin> set (take n (visible src))"
    using visible_no_zero [of src] by (auto dest: in_set_takeD)
  then show ?thesis
    by (auto simp: strncpy_def)
qed

text \<open>
  C9, as amended. When the allocation fails, \<^verbatim>\<open>createAccount\<close> returns \<open>NULL\<close> and the
  heap is as it was; this is the only case in which it returns \<open>NULL\<close>. Otherwise it
  returns the address of the block, which now holds an account with the given number,
  the balance \<open>0\<close> and the transaction count \<open>0\<close>, so with no recorded transaction; the
  transaction slots keep what the block held. The holder name is an array of
  \<open>NAME_LENGTH = 5\<close> bytes: the first five characters of the name given, followed by
  zero bytes up to the length five when the name is shorter. So it has at most five
  visible characters, and a zero byte in the array exactly when the name has fewer than
  five characters.
\<close>

theorem createAccount_result:
  "createAccount h None accNum name = (NULL, h) \<and>
   (fst (createAccount h malloc accNum name) = NULL \<longleftrightarrow> malloc = None) \<and>
   (\<exists>a. createAccount h (Some (p, blk)) accNum name = (Ptr p, h(p \<mapsto> a)) \<and>
        accountNumber a = accNum \<and> balance a = 0 \<and> transactionCount a = 0 \<and>
        recorded a = [] \<and> transactions a = transactions blk \<and>
        holderName a = take NAME_LENGTH (visible name) @
                       replicate (NAME_LENGTH - length (visible name)) (CHR 0x00) \<and>
        length (holderName a) = NAME_LENGTH \<and>
        visible (holderName a) = take NAME_LENGTH (visible name) \<and>
        length (visible (holderName a)) \<le> NAME_LENGTH \<and>
        (CHR 0x00 \<in> set (holderName a) \<longleftrightarrow> length (visible name) < NAME_LENGTH))"
proof (intro conjI)
  show "createAccount h None accNum name = (NULL, h)"
    by (simp add: createAccount_def)
  show "fst (createAccount h malloc accNum name) = NULL \<longleftrightarrow> malloc = None"
    by (auto simp: createAccount_def split: option.splits)
  let ?a = "blk\<lparr>accountNumber := accNum, holderName := strncpy name NAME_LENGTH,
                 balance := 0, transactionCount := 0\<rparr>"
  have "createAccount h (Some (p, blk)) accNum name = (Ptr p, h(p \<mapsto> ?a))"
    by (simp add: createAccount_def)
  moreover have "accountNumber ?a = accNum" "balance ?a = 0" "transactionCount ?a = 0"
    "recorded ?a = []" "transactions ?a = transactions blk"
    by (simp_all add: recorded_def)
  moreover have "holderName ?a = take NAME_LENGTH (visible name) @
                       replicate (NAME_LENGTH - length (visible name)) (CHR 0x00)"
    by (simp add: strncpy_def)
  moreover have "length (holderName ?a) = NAME_LENGTH"
    "visible (holderName ?a) = take NAME_LENGTH (visible name)"
    "length (visible (holderName ?a)) \<le> NAME_LENGTH"
    "CHR 0x00 \<in> set (holderName ?a) \<longleftrightarrow> length (visible name) < NAME_LENGTH"
    by (simp_all add: length_strncpy visible_strncpy strncpy_terminated)
  ultimately show "\<exists>a. createAccount h (Some (p, blk)) accNum name = (Ptr p, h(p \<mapsto> a)) \<and>
        accountNumber a = accNum \<and> balance a = 0 \<and> transactionCount a = 0 \<and>
        recorded a = [] \<and> transactions a = transactions blk \<and>
        holderName a = take NAME_LENGTH (visible name) @
                       replicate (NAME_LENGTH - length (visible name)) (CHR 0x00) \<and>
        length (holderName a) = NAME_LENGTH \<and>
        visible (holderName a) = take NAME_LENGTH (visible name) \<and>
        length (visible (holderName a)) \<le> NAME_LENGTH \<and>
        (CHR 0x00 \<in> set (holderName a) \<longleftrightarrow> length (visible name) < NAME_LENGTH)"
    by blast
qed

theorem createAccount_result_witness:
  "createAccount bank None 1003 ''Charlie'' = (NULL, bank) \<and>
   (\<exists>a. createAccount bank (Some (3, block)) 1003 ''Charlie'' = (Ptr 3, bank(3 \<mapsto> a)) \<and>
        accountNumber a = 1003 \<and> balance a = 0 \<and> transactionCount a = 0 \<and>
        recorded a = [] \<and> holderName a = ''Charl'' \<and>
        visible (holderName a) = ''Charl'' \<and> CHR 0x00 \<notin> set (holderName a)) \<and>
   (\<exists>a. createAccount bank (Some (3, block)) 1002 ''Bob'' = (Ptr 3, bank(3 \<mapsto> a)) \<and>
        accountNumber a = 1002 \<and> balance a = 0 \<and> transactionCount a = 0 \<and>
        holderName a = ''Bob'' @ [CHR 0x00, CHR 0x00] \<and>
        visible (holderName a) = ''Bob'' \<and> CHR 0x00 \<in> set (holderName a))"
proof -
  have c: "take NAME_LENGTH (visible ''Charlie'') = ''Charl''"
    "replicate (NAME_LENGTH - length (visible ''Charlie'')) (CHR 0x00) = []"
    "\<not> length (visible ''Charlie'') < NAME_LENGTH"
    by (simp_all add: visible_def)
  have b: "take NAME_LENGTH (visible ''Bob'') = ''Bob''"
    "replicate (NAME_LENGTH - length (visible ''Bob'')) (CHR 0x00) = [CHR 0x00, CHR 0x00]"
    "length (visible ''Bob'') < NAME_LENGTH"
    by (simp_all add: visible_def numeral_2_eq_2)
  from createAccount_result [of bank 1003 "''Charlie''" None 3 block]
  have 1: "createAccount bank None 1003 ''Charlie'' = (NULL, bank)" by blast
  from createAccount_result [of bank 1003 "''Charlie''" None 3 block]
  obtain a where a: "createAccount bank (Some (3, block)) 1003 ''Charlie'' = (Ptr 3, bank(3 \<mapsto> a))"
    "accountNumber a = 1003" "balance a = 0" "transactionCount a = 0" "recorded a = []"
    "holderName a = take NAME_LENGTH (visible ''Charlie'') @
       replicate (NAME_LENGTH - length (visible ''Charlie'')) (CHR 0x00)"
    "visible (holderName a) = take NAME_LENGTH (visible ''Charlie'')"
    "CHR 0x00 \<in> set (holderName a) \<longleftrightarrow> length (visible ''Charlie'') < NAME_LENGTH"
    by blast
  from a(6,7,8) have 2: "holderName a = ''Charl''" "visible (holderName a) = ''Charl''"
    "CHR 0x00 \<notin> set (holderName a)"
    unfolding c by simp_all
  from createAccount_result [of bank 1002 "''Bob''" None 3 block]
  obtain a' where a': "createAccount bank (Some (3, block)) 1002 ''Bob'' = (Ptr 3, bank(3 \<mapsto> a'))"
    "accountNumber a' = 1002" "balance a' = 0" "transactionCount a' = 0"
    "holderName a' = take NAME_LENGTH (visible ''Bob'') @
       replicate (NAME_LENGTH - length (visible ''Bob'')) (CHR 0x00)"
    "visible (holderName a') = take NAME_LENGTH (visible ''Bob'')"
    "CHR 0x00 \<in> set (holderName a') \<longleftrightarrow> length (visible ''Bob'') < NAME_LENGTH"
    by blast
  from a'(5,6,7) b(3) have 3: "holderName a' = ''Bob'' @ [CHR 0x00, CHR 0x00]"
    "visible (holderName a') = ''Bob''" "CHR 0x00 \<in> set (holderName a')"
    unfolding b(1,2) by simp_all
  from 1 a(1-5) 2 a'(1-4) 3 show ?thesis by blast
qed

text \<open>
  C9 as stated bounds the holder name by four visible characters. The account created
  for \<open>Alice\<close> has the five characters \<open>Alice\<close> in its holder name.
\<close>

theorem createAccount_name_counterexample:
  "map_option (visible \<circ> holderName)
     (snd (createAccount Map.empty (Some (0, block)) 1001 ''Alice'') 0) = Some ''Alice'' \<and>
   \<not> length ''Alice'' \<le> 4"
  by (simp add: createAccount_def strncpy_def visible_def)

subsection \<open>A full transaction log\<close>

text \<open>
  C3. When the transaction count of an account equals the capacity
  \<open>MAX_TRANSACTIONS\<close>, a deposit that passes the validation (\<open>\<not> amt \<le> 0\<close>) returns
  the success code \<open>0\<close> and changes the balance to \<open>balance a + amt\<close>, and a
  withdrawal that passes the validation (in addition \<open>\<not> balance a < amt\<close>) returns \<open>0\<close>
  and changes the balance to \<open>balance a - amt\<close>. Nothing else changes: the
  transaction slots are as before and the count stays at the capacity. This holds
  whatever the arithmetic of amounts is.
\<close>

theorem full_log_drops_record:
  assumes "h p = Some a" and "transactionCount a = MAX_TRANSACTIONS" and "\<not> amt \<le> 0"
  shows "deposit h (Ptr p) amt desc = Some (0, h(p \<mapsto> a\<lparr>balance := balance a + amt\<rparr>)) \<and>
         (\<not> balance a < amt \<longrightarrow>
            withdraw h (Ptr p) amt desc = Some (0, h(p \<mapsto> a\<lparr>balance := balance a - amt\<rparr>)))"
  using assms by (simp add: deposit_valid withdraw_valid logged_def)

theorem full_log_drops_record_witness:
  "full_bank 0 = Some (fresh 1001 ''Alice'' 500 10) \<and>
   transactionCount (fresh 1001 ''Alice'' 500 10) = MAX_TRANSACTIONS \<and>
   \<not> (20::real) \<le> 0 \<and> \<not> balance (fresh 1001 ''Alice'' 500 10) < 20 \<and>
   deposit full_bank (Ptr 0) 20 ''tip'' = Some (0, full_bank(0 \<mapsto> fresh 1001 ''Alice'' 520 10)) \<and>
   withdraw full_bank (Ptr 0) 20 ''tip'' = Some (0, full_bank(0 \<mapsto> fresh 1001 ''Alice'' 480 10))"
proof -
  have a: "full_bank 0 = Some (fresh 1001 ''Alice'' 500 10)" by (simp add: full_bank_def)
  have c: "transactionCount (fresh 1001 ''Alice'' 500 10) = MAX_TRANSACTIONS"
    by (simp add: fresh_def)
  have v: "\<not> (20::real) \<le> 0" by simp
  have b: "\<not> balance (fresh 1001 ''Alice'' 500 10) < 20" by (simp add: fresh_def)
  have u: "(fresh 1001 ''Alice'' 500 10)\<lparr>balance := balance (fresh 1001 ''Alice'' 500 10) + 20\<rparr>
             = fresh 1001 ''Alice'' 520 10"
    "(fresh 1001 ''Alice'' 500 10)\<lparr>balance := balance (fresh 1001 ''Alice'' 500 10) - 20\<rparr>
             = fresh 1001 ''Alice'' 480 10"
    by (simp_all add: fresh_def)
  from full_log_drops_record [of full_bank 0 "fresh 1001 ''Alice'' 500 10" 20 "''tip''"] a c v b
  have "deposit full_bank (Ptr 0) 20 ''tip'' = Some (0, full_bank(0 \<mapsto> fresh 1001 ''Alice'' 520 10))"
    "withdraw full_bank (Ptr 0) 20 ''tip'' = Some (0, full_bank(0 \<mapsto> fresh 1001 ''Alice'' 480 10))"
    unfolding u by blast+
  with a c v b show ?thesis by blast
qed

subsection \<open>Looking accounts up\<close>

text \<open>
  C8. In a valid registry, \<^verbatim>\<open>findAccount\<close> returns the entry at the least index whose
  account carries the number asked for: no entry before it matches, so a later
  duplicate is never returned. It returns \<open>NULL\<close> when no entry matches.
\<close>

theorem findAccount_first_match:
  assumes "valid_registry h accounts n"
  shows "(\<exists>i. 0 \<le> i \<and> i < n \<and>
              findAccount h accounts n accNum = Some (accounts ! nat i) \<and>
              matches h accNum (accounts ! nat i) \<and>
              (\<forall>j. 0 \<le> j \<and> j < i \<longrightarrow> \<not> matches h accNum (accounts ! nat j))) \<or>
         (findAccount h accounts n accNum = Some NULL \<and>
          (\<forall>i. 0 \<le> i \<and> i < n \<longrightarrow> \<not> matches h accNum (accounts ! nat i)))"
proof -
  from assms have le: "n \<le> int (length accounts)"
    by (simp add: valid_registry_def)
  show ?thesis
  proof (cases "find (matches h accNum) (registry accounts n)")
    case None
    have "\<not> matches h accNum (accounts ! nat i)" if "0 \<le> i" "i < n" for i
    proof -
      from that le have "nat i < length (registry accounts n)"
        by (simp add: registry_length)
      with None have "\<not> matches h accNum (registry accounts n ! nat i)"
        by (simp add: find_None_iff)
      with that le show ?thesis by (simp add: registry_nth)
    qed
    moreover from None assms have "findAccount h accounts n accNum = Some NULL"
      by (simp add: findAccount_find)
    ultimately show ?thesis by blast
  next
    case (Some q)
    then obtain k where k: "k < length (registry accounts n)"
      "matches h accNum (registry accounts n ! k)" "q = registry accounts n ! k"
      "\<forall>j<k. \<not> matches h accNum (registry accounts n ! j)"
      by (auto simp: find_Some_iff)
    from k(1) le have kn: "int k < n" by (simp add: registry_length)
    with le have nth: "registry accounts n ! k = accounts ! k"
      using registry_nth [of n accounts "int k"] by simp
    have "\<not> matches h accNum (accounts ! nat j)" if "0 \<le> j" "j < int k" for j
    proof -
      from that have "nat j < k" by simp
      with k(4) have "\<not> matches h accNum (registry accounts n ! nat j)" by blast
      with that kn le show ?thesis by (simp add: registry_nth)
    qed
    moreover from Some assms k(3) nth have "findAccount h accounts n accNum = Some (accounts ! nat (int k))"
      by (simp add: findAccount_find)
    moreover from k(2) nth have "matches h accNum (accounts ! nat (int k))" by simp
    ultimately show ?thesis using kn by (intro disjI1 exI [of _ "int k"]) simp
  qed
qed

theorem findAccount_first_match_witness:
  "valid_registry twins bank_accounts 3 \<and>
   matches twins 1002 (Ptr 1) \<and> matches twins 1002 (Ptr 2) \<and>
   findAccount twins bank_accounts 3 1002 = Some (Ptr 1) \<and>
   findAccount twins bank_accounts 3 4242 = Some NULL"
proof -
  have nth: "bank_accounts ! nat 0 = Ptr 0" "bank_accounts ! nat 1 = Ptr 1"
    "bank_accounts ! nat 2 = Ptr 2" "bank_accounts ! Suc 0 = Ptr 1"
    by (simp_all add: bank_accounts_def)
  have range: "i = 0 \<or> i = 1 \<or> i = 2" if "0 \<le> i" "i < 3" for i :: int
    using that by arith
  have "findAccount twins bank_accounts 3 1002 = Some (Ptr 1)"
    using findAccount_first_match [OF twins_valid, of 1002]
  proof (elim disjE exE conjE)
    fix i :: int
    assume i: "0 \<le> i" "i < 3"
      and f: "findAccount twins bank_accounts 3 1002 = Some (bank_accounts ! nat i)"
      and m: "matches twins 1002 (bank_accounts ! nat i)"
      and least: "\<forall>j. 0 \<le> j \<and> j < i \<longrightarrow> \<not> matches twins 1002 (bank_accounts ! nat j)"
    from range [OF i] show ?thesis
    proof (elim disjE)
      assume "i = 0" with m nth twins_matches show ?thesis by simp
    next
      assume "i = 1" with f nth show ?thesis by simp
    next
      assume "i = 2"
      with least have "\<not> matches twins 1002 (bank_accounts ! nat 1)"
        by (elim allE [of _ 1]) simp
      with nth twins_matches show ?thesis by simp
    qed
  next
    assume "\<forall>i. 0 \<le> i \<and> i < 3 \<longrightarrow> \<not> matches twins 1002 (bank_accounts ! nat i)"
    then have "\<not> matches twins 1002 (bank_accounts ! nat 1)"
      by (elim allE [of _ 1]) simp
    with nth twins_matches show ?thesis by simp
  qed
  moreover have "findAccount twins bank_accounts 3 4242 = Some NULL"
    using findAccount_first_match [OF twins_valid, of 4242]
  proof (elim disjE exE conjE)
    fix i :: int
    assume i: "0 \<le> i" "i < 3" and m: "matches twins 4242 (bank_accounts ! nat i)"
    from range [OF i] m nth twins_matches show ?thesis by auto
  qed
  ultimately show ?thesis using twins_valid twins_matches by blast
qed

subsection \<open>Transfers\<close>

text \<open>
  C5. In a valid registry, when the account number of the source or of the
  destination is absent, \<^verbatim>\<open>transfer\<close> returns and the heap is as it was: no balance
  and no transaction log has changed. The function returns nothing, so no error is
  reported. This holds for every amount and whatever the arithmetic of amounts is.
\<close>

theorem transfer_absent_account_no_change:
  assumes "valid_registry h accounts n"
    and "\<not> present h accounts n fromAccNum \<or> \<not> present h accounts n toAccNum"
  shows "transfer h accounts n fromAccNum toAccNum amt = Some h"
proof -
  from assms(1) obtain qf qt where
    qf: "findAccount h accounts n fromAccNum = Some qf" and
    qt: "findAccount h accounts n toAccNum = Some qt"
    using findAccount_defined by blast
  from assms qf qt have "qf = NULL \<or> qt = NULL"
    by (auto dest: findAccount_absent)
  with qf qt show ?thesis
    by (auto simp: transfer_def)
qed

theorem transfer_absent_account_no_change_witness:
  "valid_registry bank bank_accounts 3 \<and> \<not> present bank bank_accounts 3 4242 \<and>
   transfer bank bank_accounts 3 4242 1001 150 = Some bank \<and>
   transfer bank bank_accounts 3 1001 4242 150 = Some bank"
  using bank_valid bank_absent
    transfer_absent_account_no_change [OF bank_valid disjI1 [OF bank_absent], of 1001 150]
    transfer_absent_account_no_change [OF bank_valid disjI2 [OF bank_absent], of 1001 150]
  by blast

text \<open>
  C6. In \<^verbatim>\<open>transfer\<close>, once the withdrawal from the source has returned \<open>0\<close>, the
  deposit to the destination does not return the failure code: the amount has passed
  the test \<open>amt \<le> 0\<close> of \<^verbatim>\<open>withdraw\<close>, which is the only test of \<^verbatim>\<open>deposit\<close>. So a
  transfer that returns has either left the heap as it was, or has carried out both
  legs with success. This holds whatever the arithmetic of amounts is.
\<close>

theorem transfer_deposit_leg_cannot_fail:
  "(withdraw h fromAccount amt desc = Some (0, h1) \<and>
    deposit h1 toAccount amt desc' = Some (rc, h2) \<longrightarrow> rc = 0) \<and>
   (transfer h accounts n fromAccNum toAccNum amt = Some h' \<longrightarrow>
      h' = h \<or>
      (\<exists>fromAccount toAccount h1.
          findAccount h accounts n fromAccNum = Some fromAccount \<and>
          findAccount h accounts n toAccNum = Some toAccount \<and>
          withdraw h fromAccount amt ''Transfer to'' = Some (0, h1) \<and>
          deposit h1 toAccount amt ''Transfer from'' = Some (0, h')))"
proof (intro conjI impI)
  assume "withdraw h fromAccount amt desc = Some (0, h1) \<and>
          deposit h1 toAccount amt desc' = Some (rc, h2)"
  then have w: "withdraw h fromAccount amt desc = Some (0, h1)"
    and d: "deposit h1 toAccount amt desc' = Some (rc, h2)" by simp_all
  from withdraw_Some [OF w] have "\<not> amt \<le> 0" by simp
  with deposit_Some [OF d] show "rc = 0" by simp
next
  assume "transfer h accounts n fromAccNum toAccNum amt = Some h'"
  then show "h' = h \<or>
      (\<exists>fromAccount toAccount h1.
          findAccount h accounts n fromAccNum = Some fromAccount \<and>
          findAccount h accounts n toAccNum = Some toAccount \<and>
          withdraw h fromAccount amt ''Transfer to'' = Some (0, h1) \<and>
          deposit h1 toAccount amt ''Transfer from'' = Some (0, h'))"
    by (rule transfer_Some)
qed

theorem transfer_deposit_leg_cannot_fail_witness:
  "withdraw bank (Ptr 0) 150 ''Transfer to'' = Some (0, bank_withdrawn) \<and>
   deposit bank_withdrawn (Ptr 2) 150 ''Transfer from'' = Some (0, bank_transferred) \<and>
   transfer bank bank_accounts 3 1001 1003 150 = Some bank_transferred \<and>
   (bank_transferred = bank \<or>
    (\<exists>fromAccount toAccount h1.
        findAccount bank bank_accounts 3 1001 = Some fromAccount \<and>
        findAccount bank bank_accounts 3 1003 = Some toAccount \<and>
        withdraw bank fromAccount 150 ''Transfer to'' = Some (0, h1) \<and>
        deposit h1 toAccount 150 ''Transfer from'' = Some (0, bank_transferred)))"
  using bank_withdraw_150 bank_deposit_150 bank_transfer_150
    transfer_deposit_leg_cannot_fail [of bank "Ptr 0" 150 "''Transfer to''" bank_withdrawn
      "Ptr 2" "''Transfer from''" 0 bank_transferred bank_accounts 3 1001 1003 bank_transferred]
  by blast

text \<open>
  C4, as amended. When \<^verbatim>\<open>findAccount\<close> finds both accounts, the two account numbers
  differ, both transaction logs are in order, and the amount passes the tests of
  \<^verbatim>\<open>withdraw\<close> (it is positive, \<open>\<not> amt \<le> 0\<close>, and the balance of the source is at least
  the amount, \<open>\<not> balance a_from < amt\<close>), then \<^verbatim>\<open>transfer\<close> returns; the balance of the
  source is then \<open>balance a_from - amt\<close> and that of the destination
  \<open>balance a_to + amt\<close>; each of the two accounts whose count is below the capacity
  has one more recorded transaction, a withdrawal described \<open>Transfer t\<close> for the
  source and a deposit described \<open>Transfer f\<close> for the destination, and an account at
  capacity keeps its recorded transactions; no other account changes. This holds
  whatever the arithmetic of amounts is.
\<close>

theorem transfer_moves_amount:
  assumes "findAccount h accounts n fromAccNum = Some (Ptr pf)"
    and "findAccount h accounts n toAccNum = Some (Ptr pt)"
    and "fromAccNum \<noteq> toAccNum"
    and "h pf = Some a_from" and "h pt = Some a_to"
    and "log_ok a_from" and "log_ok a_to"
    and "\<not> amt \<le> 0" and "\<not> balance a_from < amt"
  shows "\<exists>h' b_from b_to.
           transfer h accounts n fromAccNum toAccNum amt = Some h' \<and>
           h' pf = Some b_from \<and> h' pt = Some b_to \<and>
           (\<forall>p. p \<noteq> pf \<and> p \<noteq> pt \<longrightarrow> h' p = h p) \<and>
           balance b_from = balance a_from - amt \<and>
           balance b_to = balance a_to + amt \<and>
           recorded b_from =
             (if transactionCount a_from < MAX_TRANSACTIONS
              then recorded a_from @
                   [\<lparr>type = WITHDRAWAL, amount = amt, description = strncpy ''Transfer to'' 10\<rparr>]
              else recorded a_from) \<and>
           recorded b_to =
             (if transactionCount a_to < MAX_TRANSACTIONS
              then recorded a_to @
                   [\<lparr>type = DEPOSIT, amount = amt, description = strncpy ''Transfer from'' 10\<rparr>]
              else recorded a_to)"
proof -
  from assms(1,4) findAccount_Ptr have "accountNumber a_from = fromAccNum" by fastforce
  moreover from assms(2,5) findAccount_Ptr have "accountNumber a_to = toAccNum" by fastforce
  ultimately have ne: "pf \<noteq> pt" using assms(3,4,5) by auto
  let ?b_from = "logged (a_from\<lparr>balance := balance a_from - amt\<rparr>) WITHDRAWAL amt ''Transfer to''"
  let ?b_to = "logged (a_to\<lparr>balance := balance a_to + amt\<rparr>) DEPOSIT amt ''Transfer from''"
  let ?h' = "h(pf \<mapsto> ?b_from, pt \<mapsto> ?b_to)"
  from assms have c: "0 \<le> transactionCount a_from" "0 \<le> transactionCount a_to"
    by (simp_all add: log_ok_def)
  from transfer_distinct [OF assms(1,2,4,5) ne assms(8,9) c]
  have t: "transfer h accounts n fromAccNum toAccNum amt = Some ?h'" .
  from ne have "?h' pf = Some ?b_from" "?h' pt = Some ?b_to"
    "\<forall>p. p \<noteq> pf \<and> p \<noteq> pt \<longrightarrow> ?h' p = h p"
    by simp_all
  moreover have "balance ?b_from = balance a_from - amt" "balance ?b_to = balance a_to + amt"
    by simp_all
  moreover from assms(6) have "recorded ?b_from =
             (if transactionCount a_from < MAX_TRANSACTIONS
              then recorded a_from @
                   [\<lparr>type = WITHDRAWAL, amount = amt, description = strncpy ''Transfer to'' 10\<rparr>]
              else recorded a_from)"
    by (simp add: recorded_logged)
  moreover from assms(7) have "recorded ?b_to =
             (if transactionCount a_to < MAX_TRANSACTIONS
              then recorded a_to @
                   [\<lparr>type = DEPOSIT, amount = amt, description = strncpy ''Transfer from'' 10\<rparr>]
              else recorded a_to)"
    by (simp add: recorded_logged)
  ultimately show ?thesis using t by blast
qed

theorem transfer_moves_amount_witness:
  "findAccount bank bank_accounts 3 1001 = Some (Ptr 0) \<and>
   findAccount bank bank_accounts 3 1003 = Some (Ptr 2) \<and>
   (1001::int) \<noteq> 1003 \<and>
   bank 0 = Some (fresh 1001 ''Alice'' 500 1) \<and>
   bank 2 = Some (fresh 1003 ''Charlie'' 750 1) \<and>
   log_ok (fresh 1001 ''Alice'' 500 1) \<and> log_ok (fresh 1003 ''Charlie'' 750 1) \<and>
   \<not> (150::real) \<le> 0 \<and> \<not> balance (fresh 1001 ''Alice'' 500 1) < 150 \<and>
   balance_at (transfer bank bank_accounts 3 1001 1003 150) 0 = Some 350 \<and>
   balance_at (transfer bank bank_accounts 3 1001 1003 150) 2 = Some 900 \<and>
   count_at (transfer bank bank_accounts 3 1001 1003 150) 0 = Some 2 \<and>
   count_at (transfer bank bank_accounts 3 1001 1003 150) 2 = Some 2"
proof -
  have ne: "(1001::int) \<noteq> 1003" by simp
  have ok: "log_ok (fresh 1001 ''Alice'' 500 1)" "log_ok (fresh 1003 ''Charlie'' 750 1)"
    by (simp_all add: fresh_log_ok)
  have v: "\<not> (150::real) \<le> 0" "\<not> balance (fresh 1001 ''Alice'' 500 1) < 150"
    by (simp_all add: fresh_def)
  from transfer_moves_amount [OF bank_find_1001 bank_find_1003 ne bank_accounts_at ok v]
  obtain h' b_from b_to where
    t: "transfer bank bank_accounts 3 1001 1003 150 = Some h'"
      "h' 0 = Some b_from" "h' 2 = Some b_to"
    and b: "balance b_from = balance (fresh 1001 ''Alice'' 500 1) - 150"
      "balance b_to = balance (fresh 1003 ''Charlie'' 750 1) + 150"
    by blast
  from t b have bal: "balance_at (transfer bank bank_accounts 3 1001 1003 150) 0 = Some 350"
    "balance_at (transfer bank bank_accounts 3 1001 1003 150) 2 = Some 900"
    by (simp_all add: balance_at_def fresh_def)
  have cnt: "count_at (transfer bank bank_accounts 3 1001 1003 150) 0 = Some 2"
    "count_at (transfer bank bank_accounts 3 1001 1003 150) 2 = Some 2"
    by (simp_all add: bank_transfer_150 count_at_def bank_transferred_def bank_withdrawn_def fresh_def)
  from bank_find_1001 bank_find_1003 ne bank_accounts_at ok v bal cnt show ?thesis by blast
qed

text \<open>
  C4 as stated does not hold when the source and the destination are the same account,
  which the program does not exclude: 1001 is present and holds 500, the amount 150 is
  positive and covered, but after \<open>transfer\<close> from 1001 to 1001 the balance is 500 again
  and not 350, and the one account has two more records.
\<close>

theorem transfer_to_self_counterexample:
  "findAccount bank bank_accounts 3 1001 = Some (Ptr 0) \<and>
   balance_at (Some bank) 0 = Some 500 \<and> \<not> (150::real) \<le> 0 \<and>
   balance_at (transfer bank bank_accounts 3 1001 1001 150) 0 = Some 500 \<and>
   balance_at (transfer bank bank_accounts 3 1001 1001 150) 0 \<noteq> Some (500 - 150) \<and>
   count_at (Some bank) 0 = Some 1 \<and>
   count_at (transfer bank bank_accounts 3 1001 1001 150) 0 = Some 3"
proof -
  have v: "\<not> (150::real) \<le> 0" "\<not> balance (fresh 1001 ''Alice'' 500 1) < 150"
    "0 \<le> transactionCount (fresh 1001 ''Alice'' 500 1)"
    by (simp_all add: fresh_def)
  note t = transfer_self [OF bank_find_1001 bank_accounts_at(1) v]
  have "balance_at (transfer bank bank_accounts 3 1001 1001 150) 0 = Some 500"
    unfolding t by (simp add: balance_at_def fresh_def)
  moreover have "count_at (transfer bank bank_accounts 3 1001 1001 150) 0 = Some 3"
    unfolding t by (simp add: count_at_def fresh_def logged_def)
  moreover have "balance_at (Some bank) 0 = Some 500" "count_at (Some bank) 0 = Some 1"
    by (simp_all add: balance_at_def count_at_def bank_def fresh_def)
  ultimately show ?thesis using bank_find_1001 v by simp
qed

subsection \<open>Balances stay non-negative\<close>

text \<open>
  In exact arithmetic a withdrawal or a deposit that returns leaves every balance that
  was not negative not negative.
\<close>

lemma withdraw_nonneg:
  fixes h :: "('d::linordered_ab_group_add) heap"
  assumes "h p = Some a" and "0 \<le> balance a"
    and w: "withdraw h q amt desc = Some (rc, h')"
  shows "\<exists>b. h' p = Some b \<and> 0 \<le> balance b"
proof -
  from withdraw_Some [OF w] consider "h' = h"
    | p' a' where "h p' = Some a'" "\<not> balance a' < amt"
        "h' = h(p' \<mapsto> logged (a'\<lparr>balance := balance a' - amt\<rparr>) WITHDRAWAL amt desc)"
    by blast
  then show ?thesis
  proof cases
    case 1
    with assms show ?thesis by simp
  next
    case 2
    show ?thesis
    proof (cases "p' = p")
      case True
      with 2 assms show ?thesis by simp
    next
      case False
      with 2 assms show ?thesis by simp
    qed
  qed
qed

lemma deposit_nonneg:
  fixes h :: "('d::linordered_ab_group_add) heap"
  assumes "h p = Some a" and "0 \<le> balance a"
    and d: "deposit h q amt desc = Some (rc, h')"
  shows "\<exists>b. h' p = Some b \<and> 0 \<le> balance b"
proof -
  from deposit_Some [OF d] consider "h' = h"
    | p' a' where "h p' = Some a'" "\<not> amt \<le> 0"
        "h' = h(p' \<mapsto> logged (a'\<lparr>balance := balance a' + amt\<rparr>) DEPOSIT amt desc)"
    by blast
  then show ?thesis
  proof cases
    case 1
    with assms show ?thesis by simp
  next
    case 2
    show ?thesis
    proof (cases "p' = p")
      case True
      with 2 assms show ?thesis by simp
    next
      case False
      with 2 assms show ?thesis by simp
    qed
  qed
qed

text \<open>
  The same for the arithmetic of \<^verbatim>\<open>double\<close>: rounding keeps the sign of an exact
  result that is not negative, and a NaN is neither below zero nor at least zero.
\<close>

lemma overflow_limit_pos: "0 < overflow_limit"
  by (simp add: overflow_limit_def)

lemma round_half_even_nonneg: "0 \<le> k \<Longrightarrow> 0 \<le> round_half_even k s"
  by (simp add: round_half_even_def Let_def pos_imp_zdiv_nonneg_iff)

lemma zero_le_Finite [simp]: "0 \<le> Finite k \<longleftrightarrow> 0 \<le> k"
  by (simp add: zero_double_def)

lemma Finite_le_zero [simp]: "Finite k \<le> 0 \<longleftrightarrow> k \<le> 0"
  by (simp add: zero_double_def)

lemma Finite_less_zero [simp]: "Finite k < 0 \<longleftrightarrow> k < 0"
  by (simp add: zero_double_def)

lemma double_zero_simps [simp]:
  "0 \<le> PInf" "\<not> 0 \<le> NInf" "\<not> 0 \<le> NaN" "\<not> PInf < 0" "NInf < 0" "\<not> NaN < 0"
  "\<not> PInf \<le> 0" "NInf \<le> 0" "\<not> NaN \<le> 0"
  by (simp_all add: zero_double_def)

lemma round_to_double_nonneg: "0 \<le> k \<Longrightarrow> 0 \<le> round_to_double k"
proof -
  assume k: "0 \<le> k"
  define s where "s = nat (bits \<bar>k\<bar> - 53)"
  define k' where "k' = round_half_even k s * 2 ^ s"
  have k': "0 \<le> k'"
    unfolding k'_def using round_half_even_nonneg [OF k, of s] by simp
  have r: "round_to_double k =
      (if bits \<bar>k\<bar> \<le> 53 then Finite k
       else if overflow_limit \<le> k' then PInf
       else if k' \<le> - overflow_limit then NInf else Finite k')"
    by (simp add: round_to_double_def Let_def k'_def s_def)
  from k k' overflow_limit_pos show ?thesis
    unfolding r by simp
qed

lemma double_nonneg_not_less: "0 \<le> (b::double) \<Longrightarrow> \<not> b < 0"
  by (cases b) simp_all

lemma double_withdraw_not_negative:
  assumes "0 \<le> (b::double)" and "\<not> amt \<le> 0" and "\<not> b < amt"
  shows "\<not> b - amt < 0" and "is_finite amt \<Longrightarrow> 0 \<le> b - amt"
proof -
  have *: "0 \<le> round_to_double (x - y)" if "\<not> x < y" for x y :: int
    using that by (intro round_to_double_nonneg) simp
  from assms * show "\<not> b - amt < 0"
    by (cases b; cases amt) (auto dest: double_nonneg_not_less)
  from assms * show "is_finite amt \<Longrightarrow> 0 \<le> b - amt"
    by (cases b; cases amt) auto
qed

lemma double_deposit_not_negative:
  assumes "\<not> (b::double) < 0" and "\<not> amt \<le> 0"
  shows "\<not> b + amt < 0" and "0 \<le> b \<Longrightarrow> is_finite amt \<Longrightarrow> 0 \<le> b + amt"
proof -
  have *: "0 \<le> round_to_double (x + y)" if "\<not> x < 0" "\<not> y \<le> 0" for x y :: int
    using that by (intro round_to_double_nonneg) simp
  from assms * show "\<not> b + amt < 0"
    by (cases b; cases amt) (auto dest: double_nonneg_not_less)
  from assms * show "0 \<le> b \<Longrightarrow> is_finite amt \<Longrightarrow> 0 \<le> b + amt"
    by (cases b; cases amt) auto
qed


lemma withdraw_double:
  fixes h :: "double heap"
  assumes "h p = Some a" and "0 \<le> balance a"
    and w: "withdraw h q amt desc = Some (rc, h')"
  shows "\<exists>b. h' p = Some b \<and> \<not> balance b < 0 \<and> (is_finite amt \<longrightarrow> 0 \<le> balance b)"
proof -
  from withdraw_Some [OF w] consider "h' = h"
    | p' a' where "h p' = Some a'" "\<not> amt \<le> 0" "\<not> balance a' < amt"
        "h' = h(p' \<mapsto> logged (a'\<lparr>balance := balance a' - amt\<rparr>) WITHDRAWAL amt desc)"
    by blast
  then show ?thesis
  proof cases
    case 1
    with assms show ?thesis by (simp add: double_nonneg_not_less)
  next
    case 2
    show ?thesis
    proof (cases "p' = p")
      case True
      with 2 assms have "a' = a" by simp
      with 2 True assms(2) show ?thesis
        by (simp add: double_withdraw_not_negative)
    next
      case False
      with 2 assms show ?thesis by (simp add: double_nonneg_not_less)
    qed
  qed
qed

lemma deposit_double:
  fixes h :: "double heap"
  assumes "h p = Some a" and "\<not> balance a < 0"
    and d: "deposit h q amt desc = Some (rc, h')"
  shows "\<exists>b. h' p = Some b \<and> \<not> balance b < 0 \<and>
             (0 \<le> balance a \<and> is_finite amt \<longrightarrow> 0 \<le> balance b)"
proof -
  from deposit_Some [OF d] consider "h' = h"
    | p' a' where "h p' = Some a'" "\<not> amt \<le> 0"
        "h' = h(p' \<mapsto> logged (a'\<lparr>balance := balance a' + amt\<rparr>) DEPOSIT amt desc)"
    by blast
  then show ?thesis
  proof cases
    case 1
    with assms show ?thesis by simp
  next
    case 2
    show ?thesis
    proof (cases "p' = p")
      case True
      with 2 assms have "a' = a" by simp
      with 2 True assms(2) show ?thesis
        by (simp add: double_deposit_not_negative)
    next
      case False
      with 2 assms show ?thesis by simp
    qed
  qed
qed

lemma dbank_withdraw_120:
  "map_option fst (withdraw dbank (Ptr 0) (dbl 120) ''cash'') = Some 0"
  "balance_at (map_option snd (withdraw dbank (Ptr 0) (dbl 120) ''cash'')) 0 = Some (dbl 380)"
  by code_simp+

lemma dbank_transfer_120:
  "count_at (transfer dbank [Ptr 0] 1 1001 1001 (dbl 120)) 0 = Some 3"
  by code_simp

text \<open>
  C7, as amended. Amounts are of type \<open>double\<close>. For an account whose balance is at
  least zero, a call of \<^verbatim>\<open>withdraw\<close> on any pointer either returns \<open>-1\<close> and leaves
  the heap as it was, or returns \<open>0\<close>; in both cases the balance of the account is not
  below zero afterwards, and it is at least zero when the amount is a finite number.
  The same holds after a call of \<^verbatim>\<open>transfer\<close>, whose withdrawal is that same call of
  \<^verbatim>\<open>withdraw\<close>.
\<close>

theorem withdraw_never_makes_balance_negative:
  fixes h :: "double heap"
  assumes "h p = Some a" and "0 \<le> balance a"
  shows "(withdraw h q amt desc = Some (rc, h') \<longrightarrow>
            ((rc = - 1 \<and> h' = h) \<or> rc = 0) \<and>
            (\<exists>b. h' p = Some b \<and> \<not> balance b < 0 \<and> (is_finite amt \<longrightarrow> 0 \<le> balance b))) \<and>
         (transfer h accounts n fromAccNum toAccNum amt = Some h'' \<longrightarrow>
            (\<exists>b. h'' p = Some b \<and> \<not> balance b < 0 \<and> (is_finite amt \<longrightarrow> 0 \<le> balance b)))"
proof (intro conjI impI)
  assume w: "withdraw h q amt desc = Some (rc, h')"
  from withdraw_Some [OF w] show "(rc = - 1 \<and> h' = h) \<or> rc = 0" by blast
  from assms w
  show "\<exists>b. h' p = Some b \<and> \<not> balance b < 0 \<and> (is_finite amt \<longrightarrow> 0 \<le> balance b)"
    by (rule withdraw_double)
next
  assume t: "transfer h accounts n fromAccNum toAccNum amt = Some h''"
  from transfer_Some [OF t]
  show "\<exists>b. h'' p = Some b \<and> \<not> balance b < 0 \<and> (is_finite amt \<longrightarrow> 0 \<le> balance b)"
  proof (elim disjE exE conjE)
    assume "h'' = h" with assms show ?thesis by (simp add: double_nonneg_not_less)
  next
    fix fromAccount toAccount h1
    assume w: "withdraw h fromAccount amt ''Transfer to'' = Some (0, h1)"
      and d: "deposit h1 toAccount amt ''Transfer from'' = Some (0, h'')"
    from withdraw_double [OF assms w] obtain b1 where b1: "h1 p = Some b1"
      "\<not> balance b1 < 0" "is_finite amt \<longrightarrow> 0 \<le> balance b1"
      by blast
    from deposit_double [OF b1(1,2) d] b1(3) show ?thesis by blast
  qed
qed

theorem withdraw_never_makes_balance_negative_witness:
  "balance_at (Some dbank) 0 = Some (dbl 500) \<and> 0 \<le> dbl 500 \<and> is_finite (dbl 120) \<and>
   (\<exists>h'. withdraw dbank (Ptr 0) (dbl 120) ''cash'' = Some (0, h') \<and>
      (\<exists>b. h' 0 = Some b \<and> balance b = dbl 380 \<and> \<not> balance b < 0 \<and> 0 \<le> balance b)) \<and>
   (\<exists>h''. transfer dbank [Ptr 0] 1 1001 1001 (dbl 120) = Some h'' \<and>
      (\<exists>b. h'' 0 = Some b \<and> \<not> balance b < 0 \<and> 0 \<le> balance b))"
proof -
  let ?a = "dblock\<lparr>accountNumber := 1001, holderName := strncpy ''Alice'' NAME_LENGTH,
                   balance := dbl 500, transactionCount := 1\<rparr>"
  have a: "dbank 0 = Some ?a" by (simp add: dbank_def)
  have b: "0 \<le> balance ?a" by (simp add: dbl_def)
  have f: "is_finite (dbl 120)" by (simp add: dbl_def)
  from dbank_withdraw_120(1) obtain h' where
    w: "withdraw dbank (Ptr 0) (dbl 120) ''cash'' = Some (0, h')" by auto
  from dbank_transfer_120 obtain h'' where
    t: "transfer dbank [Ptr 0] 1 1001 1001 (dbl 120) = Some h''"
    by (auto simp: count_at_def split: Option.bind_splits)
  note inst = withdraw_never_makes_balance_negative
    [of dbank 0 ?a "Ptr 0" "dbl 120" "''cash''" 0 h' "[Ptr 0]" 1 1001 1001 h'']
  from inst a b w f
  obtain c where c: "h' 0 = Some c" "\<not> balance c < 0" "0 \<le> balance c" by blast
  from inst a b t f
  obtain c' where c': "h'' 0 = Some c'" "\<not> balance c' < 0" "0 \<le> balance c'" by blast
  from dbank_withdraw_120(2) w c(1) have "balance c = dbl 380"
    by (simp add: balance_at_def)
  moreover have "balance_at (Some dbank) 0 = Some (dbl 500)"
    by (simp add: balance_at_def dbank_def)
  moreover have "0 \<le> dbl 500" by (simp add: dbl_def)
  ultimately show ?thesis using f w c t c' by blast
qed

text \<open>
  C7 as stated does not hold for an amount that is a NaN: both tests of \<^verbatim>\<open>withdraw\<close>
  are comparisons and both are false, so the call on an account that holds 500 returns
  \<open>0\<close> and leaves the balance NaN, which is not at least zero.
\<close>

theorem withdraw_NaN_counterexample:
  "balance_at (Some dbank) 0 = Some (dbl 500) \<and> 0 \<le> dbl 500 \<and>
   map_option fst (withdraw dbank (Ptr 0) NaN ''cash'') = Some 0 \<and>
   balance_at (map_option snd (withdraw dbank (Ptr 0) NaN ''cash'')) 0 = Some NaN \<and>
   \<not> 0 \<le> NaN"
  by code_simp

subsection \<open>The transaction log only grows\<close>

lemma grows_refl: "log_ok a \<Longrightarrow> grows a a"
  by (simp add: grows_def)

lemma grows_trans:
  assumes "grows a1 a2" and "grows a2 a3"
  shows "grows a1 a3"
proof -
  let ?c1 = "nat (transactionCount a1)" and ?c2 = "nat (transactionCount a2)"
    and ?c3 = "nat (transactionCount a3)"
  from assms have c: "?c1 \<le> ?c2" "?c2 \<le> ?c3"
    and le: "transactionCount a1 \<le> transactionCount a3"
    by (auto simp: grows_def intro: nat_mono)
  from assms have t12: "take ?c1 (transactions a2) = take ?c1 (transactions a1)"
    and t23: "take ?c2 (transactions a3) = take ?c2 (transactions a2)"
    and d12: "drop ?c2 (transactions a2) = drop ?c2 (transactions a1)"
    and d23: "drop ?c3 (transactions a3) = drop ?c3 (transactions a2)"
    by (simp_all add: grows_def)
  have "take ?c1 (transactions a3) = take ?c1 (take ?c2 (transactions a3))"
    using c by (simp add: min_def)
  also have "\<dots> = take ?c1 (take ?c2 (transactions a2))" by (simp only: t23)
  also have "\<dots> = take ?c1 (transactions a2)" using c by (simp add: min_def)
  finally have t: "take ?c1 (transactions a3) = take ?c1 (transactions a1)"
    using t12 by simp
  have "drop ?c3 (transactions a2) = drop (?c3 - ?c2) (drop ?c2 (transactions a2))"
    using c by simp
  also have "\<dots> = drop (?c3 - ?c2) (drop ?c2 (transactions a1))" by (simp only: d12)
  also have "\<dots> = drop ?c3 (transactions a1)" using c by simp
  finally have d: "drop ?c3 (transactions a3) = drop ?c3 (transactions a1)"
    using d23 by simp
  from assms le t d show ?thesis by (simp add: grows_def)
qed

lemma grows_balance [simp]:
  "grows (a\<lparr>balance := b\<rparr>) a' = grows a a'" "grows a (a'\<lparr>balance := b\<rparr>) = grows a a'"
  by (simp_all add: grows_def log_ok_def)

lemma logged_grows: "log_ok a \<Longrightarrow> grows a (logged a ty amt desc)"
  by (auto simp: grows_def log_ok_def logged_def nat_add_distrib)

lemma deposit_grows:
  assumes "deposit h q amt desc = Some (rc, h')" and "h p = Some a" and "log_ok a"
  shows "\<exists>a'. h' p = Some a' \<and> grows a a'"
proof -
  from deposit_Some [OF assms(1)] consider "h' = h"
    | p' b where "h p' = Some b"
        "h' = h(p' \<mapsto> logged (b\<lparr>balance := balance b + amt\<rparr>) DEPOSIT amt desc)"
    by blast
  then show ?thesis
  proof cases
    case 1
    with assms show ?thesis by (simp add: grows_refl)
  next
    case 2
    show ?thesis
    proof (cases "p' = p")
      case True
      with 2 assms have "b = a" by simp
      moreover from assms(3) have "grows a (logged (a\<lparr>balance := balance a + amt\<rparr>) DEPOSIT amt desc)"
        using logged_grows [of "a\<lparr>balance := balance a + amt\<rparr>"] by simp
      ultimately show ?thesis using 2 True by simp
    next
      case False
      with 2 assms show ?thesis by (simp add: grows_refl)
    qed
  qed
qed

lemma withdraw_grows:
  assumes "withdraw h q amt desc = Some (rc, h')" and "h p = Some a" and "log_ok a"
  shows "\<exists>a'. h' p = Some a' \<and> grows a a'"
proof -
  from withdraw_Some [OF assms(1)] consider "h' = h"
    | p' b where "h p' = Some b"
        "h' = h(p' \<mapsto> logged (b\<lparr>balance := balance b - amt\<rparr>) WITHDRAWAL amt desc)"
    by blast
  then show ?thesis
  proof cases
    case 1
    with assms show ?thesis by (simp add: grows_refl)
  next
    case 2
    show ?thesis
    proof (cases "p' = p")
      case True
      with 2 assms have "b = a" by simp
      moreover from assms(3) have "grows a (logged (a\<lparr>balance := balance a - amt\<rparr>) WITHDRAWAL amt desc)"
        using logged_grows [of "a\<lparr>balance := balance a - amt\<rparr>"] by simp
      ultimately show ?thesis using 2 True by simp
    next
      case False
      with 2 assms show ?thesis by (simp add: grows_refl)
    qed
  qed
qed

lemma transfer_grows:
  assumes t: "transfer h accounts n fromAccNum toAccNum amt = Some h'"
    and "h p = Some a" and "log_ok a"
  shows "\<exists>a'. h' p = Some a' \<and> grows a a'"
  using transfer_Some [OF t]
proof (elim disjE exE conjE)
  assume "h' = h" with assms show ?thesis by (simp add: grows_refl)
next
  fix fromAccount toAccount h1
  assume w: "withdraw h fromAccount amt ''Transfer to'' = Some (0, h1)"
    and d: "deposit h1 toAccount amt ''Transfer from'' = Some (0, h')"
  from withdraw_grows [OF w assms(2,3)] obtain a1 where a1: "h1 p = Some a1" "grows a a1"
    by blast
  then have "log_ok a1" by (simp add: grows_def)
  from deposit_grows [OF d a1(1) this] obtain a2 where "h' p = Some a2" "grows a1 a2"
    by blast
  with a1 show ?thesis by (blast intro: grows_trans)
qed

lemma run_grows:
  "run h cs = Some (rcs, h') \<Longrightarrow> h p = Some a \<Longrightarrow> log_ok a \<Longrightarrow>
   \<exists>a'. h' p = Some a' \<and> grows a a'"
proof (induction h cs arbitrary: rcs a rule: run.induct)
  case (1 h)
  then show ?case by (simp add: grows_refl)
next
  case (2 h q amt desc cs)
  from "2.prems"(1) obtain rc h1 rcs' where
    d: "deposit h q amt desc = Some (rc, h1)" and r: "run h1 cs = Some (rcs', h')"
    by (auto split: Option.bind_splits)
  from deposit_grows [OF d "2.prems"(2,3)] obtain a1 where a1: "h1 p = Some a1" "grows a a1"
    by blast
  then have "log_ok a1" by (simp add: grows_def)
  from "2.IH" [OF d refl r a1(1) this] a1 show ?case by (blast intro: grows_trans)
next
  case (3 h q amt desc cs)
  from "3.prems"(1) obtain rc h1 rcs' where
    w: "withdraw h q amt desc = Some (rc, h1)" and r: "run h1 cs = Some (rcs', h')"
    by (auto split: Option.bind_splits)
  from withdraw_grows [OF w "3.prems"(2,3)] obtain a1 where a1: "h1 p = Some a1" "grows a a1"
    by blast
  then have "log_ok a1" by (simp add: grows_def)
  from "3.IH" [OF w refl r a1(1) this] a1 show ?case by (blast intro: grows_trans)
next
  case (4 h accounts totalAccounts fromAccNum toAccNum amt cs)
  from "4.prems"(1) obtain h1 where
    t: "transfer h accounts totalAccounts fromAccNum toAccNum amt = Some h1"
    and r: "run h1 cs = Some (rcs, h')"
    by (auto split: Option.bind_splits)
  from transfer_grows [OF t "4.prems"(2,3)] obtain a1 where a1: "h1 p = Some a1" "grows a a1"
    by blast
  then have "log_ok a1" by (simp add: grows_def)
  from "4.IH" [OF t r a1(1) this] a1 show ?case by (blast intro: grows_trans)
qed

lemma bank_dave_created:
  "createAccount bank (Some (3, block)) 1004 ''Dave'' = (Ptr 3, bank_dave)"
  by (simp add: bank_dave_def createAccount_def)

lemma mixed_runs: "map_option fst (run bank_dave mixed_calls) = Some [0, - 1]"
  by code_simp


lemma mixed_then_later_runs:
  "map_option fst (Option.bind (run bank_dave mixed_calls) (\<lambda>(rcs, h). run h later_calls)) = Some [0]"
  by code_simp

lemma mixed_count: "count_at (map_option snd (run bank_dave mixed_calls)) 3 = Some 2"
  by code_simp

lemma later_count:
  "count_at (map_option snd (Option.bind (run bank_dave mixed_calls) (\<lambda>(rcs, h). run h later_calls))) 3
     = Some 4"
  by code_simp

subsection \<open>The balance and the recorded transactions\<close>

text \<open>
  Lemma \<open>run_on_account\<close> holds whatever the arithmetic of amounts is: after successful
  deposits and withdrawals that fit in the log, every call has been recorded and the
  balance is the result of carrying the calls out in their order, starting from the
  balance before. Lemma \<open>run_on_account_defined\<close> shows that such a sequence of calls
  always returns.
\<close>

lemma logged_log_ok: "log_ok a \<Longrightarrow> log_ok (logged a ty amt desc)"
  using logged_grows [of a ty amt desc] by (simp add: grows_def)

lemma logged_count:
  "transactionCount (logged a ty amt desc) =
     (if transactionCount a < MAX_TRANSACTIONS then transactionCount a + 1 else transactionCount a)"
  by (simp add: logged_def)

lemma run_on_account:
  "run h cs = Some (rcs, h') \<Longrightarrow> h p = Some a \<Longrightarrow> log_ok a \<Longrightarrow>
   list_all (on_account (Ptr p)) cs \<Longrightarrow> list_all (\<lambda>rc. rc = 0) rcs \<Longrightarrow>
   transactionCount a + int (length cs) \<le> MAX_TRANSACTIONS \<Longrightarrow>
   \<exists>a'. h' p = Some a' \<and> log_ok a' \<and> balance a' = replay (balance a) cs \<and>
        transactionCount a' = transactionCount a + int (length cs) \<and>
        recorded a' = recorded a @ records cs"
proof (induction h cs arbitrary: rcs a rule: run.induct)
  case (1 h)
  then show ?case by simp
next
  case (2 h q amt desc cs)
  from "2.prems"(4) have q: "q = Ptr p" by simp
  from "2.prems"(1) obtain rc h1 rcs' where
    d: "deposit h q amt desc = Some (rc, h1)" and r: "run h1 cs = Some (rcs', h')"
    and rcs: "rcs = rc # rcs'"
    by (auto split: Option.bind_splits)
  from rcs "2.prems"(5) have rc: "rc = 0" and rcs': "list_all (\<lambda>rc. rc = 0) rcs'" by simp_all
  let ?a1 = "logged (a\<lparr>balance := balance a + amt\<rparr>) DEPOSIT amt desc"
  from deposit_Some [OF d] rc q "2.prems"(2) have h1: "h1 = h(p \<mapsto> ?a1)" by auto
  then have at: "h1 p = Some ?a1" by simp
  from "2.prems"(3) have ok: "log_ok ?a1" by (simp add: logged_log_ok)
  from "2.prems"(6) have lt: "transactionCount a < MAX_TRANSACTIONS" by simp
  then have c1: "transactionCount ?a1 = transactionCount a + 1" by (simp add: logged_count)
  from "2.prems"(3) lt have r1: "recorded ?a1 =
      recorded a @ [\<lparr>type = DEPOSIT, amount = amt, description = strncpy desc 10\<rparr>]"
    by (simp add: recorded_logged)
  from "2.prems"(4) have on: "list_all (on_account (Ptr p)) cs" by simp
  from "2.prems"(6) c1 have le: "transactionCount ?a1 + int (length cs) \<le> MAX_TRANSACTIONS"
    by simp
  from "2.IH" [OF d refl r at ok on rcs' le] c1 r1 show ?case by auto
next
  case (3 h q amt desc cs)
  from "3.prems"(4) have q: "q = Ptr p" by simp
  from "3.prems"(1) obtain rc h1 rcs' where
    w: "withdraw h q amt desc = Some (rc, h1)" and r: "run h1 cs = Some (rcs', h')"
    and rcs: "rcs = rc # rcs'"
    by (auto split: Option.bind_splits)
  from rcs "3.prems"(5) have rc: "rc = 0" and rcs': "list_all (\<lambda>rc. rc = 0) rcs'" by simp_all
  let ?a1 = "logged (a\<lparr>balance := balance a - amt\<rparr>) WITHDRAWAL amt desc"
  from withdraw_Some [OF w] rc q "3.prems"(2) have h1: "h1 = h(p \<mapsto> ?a1)" by auto
  then have at: "h1 p = Some ?a1" by simp
  from "3.prems"(3) have ok: "log_ok ?a1" by (simp add: logged_log_ok)
  from "3.prems"(6) have lt: "transactionCount a < MAX_TRANSACTIONS" by simp
  then have c1: "transactionCount ?a1 = transactionCount a + 1" by (simp add: logged_count)
  from "3.prems"(3) lt have r1: "recorded ?a1 =
      recorded a @ [\<lparr>type = WITHDRAWAL, amount = amt, description = strncpy desc 10\<rparr>]"
    by (simp add: recorded_logged)
  from "3.prems"(4) have on: "list_all (on_account (Ptr p)) cs" by simp
  from "3.prems"(6) c1 have le: "transactionCount ?a1 + int (length cs) \<le> MAX_TRANSACTIONS"
    by simp
  from "3.IH" [OF w refl r at ok on rcs' le] c1 r1 show ?case by auto
next
  case (4 h accounts totalAccounts fromAccNum toAccNum amt cs)
  then show ?case by simp
qed

lemma replay_exact:
  fixes b :: "'d::ab_group_add"
  shows "replay b cs = b + deposited cs - withdrawn cs"
  by (induction b cs rule: replay.induct) (simp_all add: algebra_simps)

lemma net_Nil: "net [] = 0"
  by (simp add: net_def)

lemma net_Cons:
  "net (t # ts) = (case type t of DEPOSIT \<Rightarrow> amount t + net ts | WITHDRAWAL \<Rightarrow> net ts - amount t)"
  by (cases "type t") (simp_all add: net_def algebra_simps)

lemma net_records:
  fixes cs :: "('d::ab_group_add) call list"
  shows "net (records cs) = deposited cs - withdrawn cs"
  by (induction cs rule: records.induct) (simp_all add: net_Nil net_Cons algebra_simps)

lemma run_on_account_defined:
  "h p = Some a \<Longrightarrow> log_ok a \<Longrightarrow> list_all (on_account (Ptr p)) cs \<Longrightarrow>
   \<exists>rcs h'. run h cs = Some (rcs, h')"
proof (induction h cs arbitrary: a rule: run.induct)
  case (1 h)
  then show ?case by simp
next
  case (2 h q amt desc cs)
  from "2.prems"(3) have q: "q = Ptr p" and on: "list_all (on_account (Ptr p)) cs" by simp_all
  from "2.prems"(2) have c: "0 \<le> transactionCount a" by (simp add: log_ok_def)
  obtain rc h1 a1 where d: "deposit h q amt desc = Some (rc, h1)"
    and a1: "h1 p = Some a1" "log_ok a1"
  proof (cases "amt \<le> 0")
    case True
    with "2.prems" that show ?thesis by (simp add: deposit_def)
  next
    case False
    with "2.prems" q c that [of 0 "h(p \<mapsto> logged (a\<lparr>balance := balance a + amt\<rparr>) DEPOSIT amt desc)"]
    show ?thesis by (simp add: deposit_valid logged_log_ok)
  qed
  from "2.IH" [OF d refl a1 on] d show ?case by auto
next
  case (3 h q amt desc cs)
  from "3.prems"(3) have q: "q = Ptr p" and on: "list_all (on_account (Ptr p)) cs" by simp_all
  from "3.prems"(2) have c: "0 \<le> transactionCount a" by (simp add: log_ok_def)
  obtain rc h1 a1 where w: "withdraw h q amt desc = Some (rc, h1)"
    and a1: "h1 p = Some a1" "log_ok a1"
  proof (cases "amt \<le> 0 \<or> balance a < amt")
    case True
    with "3.prems" q that [of "- 1" h a] show ?thesis by (auto simp: withdraw_def)
  next
    case False
    with "3.prems" q c that [of 0 "h(p \<mapsto> logged (a\<lparr>balance := balance a - amt\<rparr>) WITHDRAWAL amt desc)"]
    show ?thesis by (simp add: withdraw_valid logged_log_ok)
  qed
  from "3.IH" [OF w refl a1 on] w show ?case by auto
next
  case (4 h accounts totalAccounts fromAccNum toAccNum amt cs)
  then show ?case by simp
qed

text \<open>
  In exact arithmetic (amounts in a group, such as \<open>real\<close>) the balance after such a
  sequence is the sum of the amounts deposited minus the sum of the amounts withdrawn,
  and the net of the recorded transactions.
\<close>

lemma balance_exact_arithmetic:
  fixes h0 :: "('d::{ab_group_add,ord}) heap"
  assumes "createAccount h0 (Some (p, blk)) accNum name = (q, h1)"
    and "length (transactions blk) = nat MAX_TRANSACTIONS"
    and "list_all (on_account q) cs" and "int (length cs) \<le> MAX_TRANSACTIONS"
    and "run h1 cs = Some (rcs, h2)" and "list_all (\<lambda>rc. rc = 0) rcs"
  shows "\<exists>a. h2 p = Some a \<and>
           balance a = deposited cs - withdrawn cs \<and>
           balance a = net (recorded a) \<and>
           recorded a = records cs \<and>
           transactionCount a = int (length cs)"
proof -
  let ?a1 = "blk\<lparr>accountNumber := accNum, holderName := strncpy name NAME_LENGTH,
                  balance := 0, transactionCount := 0\<rparr>"
  from assms(1) have q: "q = Ptr p" and h1: "h1 p = Some ?a1"
    by (auto simp: createAccount_def)
  from assms(2) have ok: "log_ok ?a1" by (simp add: log_ok_def)
  from assms(4) have le: "transactionCount ?a1 + int (length cs) \<le> MAX_TRANSACTIONS" by simp
  from assms(3) q have on: "list_all (on_account (Ptr p)) cs" by simp
  from run_on_account [OF assms(5) h1 ok on assms(6) le]
  obtain a where a: "h2 p = Some a" "balance a = replay (balance ?a1) cs"
    "transactionCount a = transactionCount ?a1 + int (length cs)"
    "recorded a = recorded ?a1 @ records cs"
    by blast
  from a(2) have b: "balance a = deposited cs - withdrawn cs"
    by (simp add: replay_exact)
  from a(4) have r: "recorded a = records cs" by (simp add: recorded_def)
  from b r have "balance a = net (recorded a)" by (simp add: net_records)
  with a b r show ?thesis by auto
qed


lemma settle_records: "settle b (records cs) = replay b cs"
  by (induction b cs rule: replay.induct) simp_all

lemma dopened_created:
  "createAccount Map.empty (Some (0, dblock)) 1001 ''Alice'' = (Ptr 0, dopened)"
  by (simp add: dopened_def createAccount_def)

lemma withdraw_last_runs:
  "map_option fst (run dopened withdraw_last) = Some [0, 0, 0]"
  "balance_at (map_option snd (run dopened withdraw_last)) 0 = Some (dbl 0)"
  by code_simp+

lemma withdraw_between_runs:
  "map_option fst (run dopened withdraw_between) = Some [0, 0, 0]"
  "balance_at (map_option snd (run dopened withdraw_between)) 0 = Some (dbl 1)"
  by code_simp+

lemma same_amounts:
  "deposits withdraw_last = deposits withdraw_between"
  "withdrawals withdraw_last = withdrawals withdraw_between"
  by (simp_all add: withdraw_last_def withdraw_between_def)

lemma double_sums:
  "deposited withdraw_between - withdrawn withdraw_between = dbl 0"
  by code_simp

text \<open>
  C2, as amended. Take an account that \<^verbatim>\<open>createAccount\<close> has just set up in a block
  with \<open>MAX_TRANSACTIONS\<close> slots, and any sequence of at most \<open>MAX_TRANSACTIONS\<close> calls
  of \<^verbatim>\<open>deposit\<close> and \<^verbatim>\<open>withdraw\<close> on it that all return \<open>0\<close>. Then every call has been
  recorded, in order, and the balance is the net of the recorded transactions taken in
  that order from a balance of \<open>0\<close>: each deposit added and each withdrawal subtracted
  in turn, in the arithmetic of the amounts. This holds whatever that arithmetic is.
\<close>

theorem balance_is_settled_log:
  assumes "createAccount h0 (Some (p, blk)) accNum name = (q, h1)"
    and "length (transactions blk) = nat MAX_TRANSACTIONS"
    and "list_all (on_account q) cs" and "int (length cs) \<le> MAX_TRANSACTIONS"
    and "run h1 cs = Some (rcs, h2)" and "list_all (\<lambda>rc. rc = 0) rcs"
  shows "\<exists>a. h2 p = Some a \<and>
           transactionCount a = int (length cs) \<and>
           recorded a = records cs \<and>
           balance a = settle 0 (recorded a)"
proof -
  let ?a1 = "blk\<lparr>accountNumber := accNum, holderName := strncpy name NAME_LENGTH,
                  balance := 0, transactionCount := 0\<rparr>"
  from assms(1) have q: "q = Ptr p" and h1: "h1 p = Some ?a1"
    by (auto simp: createAccount_def)
  from assms(2) have ok: "log_ok ?a1" by (simp add: log_ok_def)
  from assms(4) have le: "transactionCount ?a1 + int (length cs) \<le> MAX_TRANSACTIONS" by simp
  from assms(3) q have on: "list_all (on_account (Ptr p)) cs" by simp
  from run_on_account [OF assms(5) h1 ok on assms(6) le]
  obtain a where a: "h2 p = Some a" "balance a = replay (balance ?a1) cs"
    "transactionCount a = transactionCount ?a1 + int (length cs)"
    "recorded a = recorded ?a1 @ records cs"
    by blast
  from a(4) have r: "recorded a = records cs" by (simp add: recorded_def)
  from a(2) r have "balance a = settle 0 (recorded a)" by (simp add: settle_records)
  with a r show ?thesis by auto
qed

theorem balance_is_settled_log_witness:
  "createAccount Map.empty (Some (0, dblock)) 1001 ''Alice'' = (Ptr 0, dopened) \<and>
   length (transactions dblock) = nat MAX_TRANSACTIONS \<and>
   list_all (on_account (Ptr 0)) withdraw_last \<and>
   int (length withdraw_last) \<le> MAX_TRANSACTIONS \<and>
   (\<exists>h2. run dopened withdraw_last = Some ([0, 0, 0], h2) \<and>
      (\<exists>a. h2 0 = Some a \<and> transactionCount a = 3 \<and>
           recorded a = records withdraw_last \<and>
           balance a = settle 0 (recorded a) \<and> balance a = dbl 0))"
proof -
  have len: "length (transactions dblock) = nat MAX_TRANSACTIONS"
    by (simp add: dblock_def)
  have on: "list_all (on_account (Ptr 0)) withdraw_last"
    and n: "int (length withdraw_last) \<le> MAX_TRANSACTIONS"
    by (simp_all add: withdraw_last_def)
  from withdraw_last_runs(1) obtain h2 where
    r: "run dopened withdraw_last = Some ([0, 0, 0], h2)"
    by auto
  have z: "list_all (\<lambda>rc. rc = 0) [0, 0, 0 :: int]" by simp
  from balance_is_settled_log [OF dopened_created len on n r z]
  obtain a where a: "h2 0 = Some a" "transactionCount a = int (length withdraw_last)"
    "recorded a = records withdraw_last" "balance a = settle 0 (recorded a)"
    by blast
  from a(2) have c: "transactionCount a = 3" by (simp add: withdraw_last_def)
  from withdraw_last_runs(2) r a(1) have b: "balance a = dbl 0"
    by (simp add: balance_at_def)
  from dopened_created len on n r a(1,3,4) c b show ?thesis by blast
qed

text \<open>
  C2 as stated does not hold in the arithmetic of \<^verbatim>\<open>double\<close>. Two sequences of
  successful calls on a new account deposit \<^verbatim>\<open>1e16\<close> and \<open>1\<close> and withdraw \<^verbatim>\<open>1e16\<close>: the
  deposits and the withdrawal are the same, yet the balance is \<open>0\<close> when the withdrawal
  comes last, since \<^verbatim>\<open>1e16 + 1\<close> rounds to \<^verbatim>\<open>1e16\<close>, and \<open>1\<close> when it comes between the
  deposits. So the balance is not given by the two sums. In the second sequence the sum
  of the deposits minus the sum of the withdrawals is \<open>0\<close> in the arithmetic of
  \<^verbatim>\<open>double\<close>, and the balance is \<open>1\<close>.
\<close>

theorem balance_rounding_counterexample:
  "list_all (on_account (Ptr 0)) withdraw_last \<and> list_all (on_account (Ptr 0)) withdraw_between \<and>
   map_option fst (run dopened withdraw_last) = Some [0, 0, 0] \<and>
   map_option fst (run dopened withdraw_between) = Some [0, 0, 0] \<and>
   deposits withdraw_last = [dbl 10000000000000000, dbl 1] \<and>
   withdrawals withdraw_last = [dbl 10000000000000000] \<and>
   deposits withdraw_last = deposits withdraw_between \<and>
   withdrawals withdraw_last = withdrawals withdraw_between \<and>
   balance_at (map_option snd (run dopened withdraw_last)) 0 = Some (dbl 0) \<and>
   balance_at (map_option snd (run dopened withdraw_between)) 0 = Some (dbl 1) \<and>
   dbl 0 \<noteq> dbl 1 \<and>
   deposited withdraw_between - withdrawn withdraw_between = dbl 0"
proof -
  have "list_all (on_account (Ptr 0)) withdraw_last" "list_all (on_account (Ptr 0)) withdraw_between"
    by (simp_all add: withdraw_last_def withdraw_between_def)
  moreover have "dbl 0 \<noteq> dbl 1" by (simp add: dbl_def)
  moreover have "deposits withdraw_last = [dbl 10000000000000000, dbl 1]"
    "withdrawals withdraw_last = [dbl 10000000000000000]"
    by (simp_all add: withdraw_last_def)
  ultimately show ?thesis
    using withdraw_last_runs withdraw_between_runs same_amounts double_sums by blast
qed

subsection \<open>The log holds the transactions carried out\<close>

text \<open>
  Each operation leaves in the log of an account the records of the transactions it
  has carried out on that account, after those that were there, as far as the capacity
  allows.
\<close>

lemma take_take_append: "take n (take n xs @ ys) = take n (xs @ ys)"
  by (cases "length xs \<le> n") (simp_all add: min_def)

lemma length_recorded: "log_ok a \<Longrightarrow> length (recorded a) = nat (transactionCount a)"
  by (auto simp: recorded_def log_ok_def)

lemma recorded_take: "log_ok a \<Longrightarrow> take 10 (recorded a) = recorded a"
  by (auto simp: length_recorded log_ok_def)

lemma recorded_logged_take:
  assumes "log_ok a"
  shows "recorded (logged a ty amt desc) =
           take (nat MAX_TRANSACTIONS) (recorded a @ [entry ty amt desc])"
proof (cases "transactionCount a < MAX_TRANSACTIONS")
  case True
  with assms have "length (recorded a) < nat MAX_TRANSACTIONS"
    by (simp add: length_recorded log_ok_def)
  with assms True show ?thesis
    by (simp add: recorded_logged entry_def)
next
  case False
  with assms have "length (recorded a) = nat MAX_TRANSACTIONS"
    by (simp add: length_recorded log_ok_def)
  with assms False show ?thesis
    by (simp add: recorded_logged)
qed

lemma deposit_journal:
  assumes d: "deposit h q amt desc = Some (rc, h')" and "h p = Some a" and "log_ok a"
  shows "\<exists>a'. h' p = Some a' \<and> log_ok a' \<and>
           recorded a' = take (nat MAX_TRANSACTIONS)
             (recorded a @ (if rc = 0 \<and> q = Ptr p then [entry DEPOSIT amt desc] else []))"
proof -
  from deposit_Some [OF d] consider "rc = - 1" "h' = h"
    | p' b where "rc = 0" "q = Ptr p'" "h p' = Some b"
        "h' = h(p' \<mapsto> logged (b\<lparr>balance := balance b + amt\<rparr>) DEPOSIT amt desc)"
    by blast
  then show ?thesis
  proof cases
    case 1
    with assms show ?thesis by (simp add: recorded_take)
  next
    case 2
    show ?thesis
    proof (cases "p' = p")
      case True
      with 2 assms have "b = a" by simp
      with 2 True assms(3) show ?thesis
        using recorded_logged_take [of "a\<lparr>balance := balance a + amt\<rparr>" DEPOSIT amt desc]
        by (simp add: logged_log_ok)
    next
      case False
      with 2 assms show ?thesis by (simp add: recorded_take)
    qed
  qed
qed

lemma withdraw_journal:
  assumes w: "withdraw h q amt desc = Some (rc, h')" and "h p = Some a" and "log_ok a"
  shows "\<exists>a'. h' p = Some a' \<and> log_ok a' \<and>
           recorded a' = take (nat MAX_TRANSACTIONS)
             (recorded a @ (if rc = 0 \<and> q = Ptr p then [entry WITHDRAWAL amt desc] else []))"
proof -
  from withdraw_Some [OF w] consider "rc = - 1" "h' = h"
    | p' b where "rc = 0" "q = Ptr p'" "h p' = Some b"
        "h' = h(p' \<mapsto> logged (b\<lparr>balance := balance b - amt\<rparr>) WITHDRAWAL amt desc)"
    by blast
  then show ?thesis
  proof cases
    case 1
    with assms show ?thesis by (simp add: recorded_take)
  next
    case 2
    show ?thesis
    proof (cases "p' = p")
      case True
      with 2 assms have "b = a" by simp
      with 2 True assms(3) show ?thesis
        using recorded_logged_take [of "a\<lparr>balance := balance a - amt\<rparr>" WITHDRAWAL amt desc]
        by (simp add: logged_log_ok)
    next
      case False
      with 2 assms show ?thesis by (simp add: recorded_take)
    qed
  qed
qed

lemma transfer_journal:
  assumes t: "transfer h accounts n fromAccNum toAccNum amt = Some h'"
    and a: "h p = Some a" and ok: "log_ok a"
  shows "\<exists>a'. h' p = Some a' \<and> log_ok a' \<and>
           recorded a' = take (nat MAX_TRANSACTIONS)
             (recorded a @ transfer_entries h accounts n fromAccNum toAccNum amt p)"
proof -
  from t obtain qf qt where
    qf: "findAccount h accounts n fromAccNum = Some qf" and
    qt: "findAccount h accounts n toAccNum = Some qt"
    by (auto simp: transfer_def split: Option.bind_splits)
  show ?thesis
  proof (cases "qf = NULL \<or> qt = NULL")
    case True
    with t qf qt have "h' = h" by (auto simp: transfer_def)
    moreover from True qf qt have "transfer_entries h accounts n fromAccNum toAccNum amt p = []"
      by (auto simp: transfer_entries_def)
    ultimately show ?thesis using a ok by (simp add: recorded_take)
  next
    case False
    with t qf qt obtain rc h1 where
      w: "withdraw h qf amt ''Transfer to'' = Some (rc, h1)"
      by (auto simp: transfer_def split: Option.bind_splits)
    show ?thesis
    proof (cases "rc = 0")
      case rcn: False
      with withdraw_Some [OF w] have "h1 = h" by simp
      moreover from t qf qt False w rcn have "h' = h1" by (simp add: transfer_def)
      moreover from qf qt w rcn have "transfer_entries h accounts n fromAccNum toAccNum amt p = []"
        by (simp add: transfer_entries_def)
      ultimately show ?thesis using a ok by (simp add: recorded_take)
    next
      case rc0: True
      with t qf qt False w obtain rc' where
        d: "deposit h1 qt amt ''Transfer from'' = Some (rc', h')"
        by (auto simp: transfer_def split: Option.bind_splits)
      from withdraw_Some [OF w] rc0 have "\<not> amt \<le> 0" by simp
      with deposit_Some [OF d] have rc': "rc' = 0" by simp
      from withdraw_journal [OF w a ok] rc0 obtain a1 where a1: "h1 p = Some a1" "log_ok a1"
        "recorded a1 = take (nat MAX_TRANSACTIONS)
           (recorded a @ (if qf = Ptr p then [entry WITHDRAWAL amt ''Transfer to''] else []))"
        by auto
      from deposit_journal [OF d a1(1,2)] rc' obtain a2 where a2: "h' p = Some a2" "log_ok a2"
        "recorded a2 = take (nat MAX_TRANSACTIONS)
           (recorded a1 @ (if qt = Ptr p then [entry DEPOSIT amt ''Transfer from''] else []))"
        by auto
      from qf qt False w rc0 have e: "transfer_entries h accounts n fromAccNum toAccNum amt p =
          (if qf = Ptr p then [entry WITHDRAWAL amt ''Transfer to''] else []) @
          (if qt = Ptr p then [entry DEPOSIT amt ''Transfer from''] else [])"
        by (simp add: transfer_entries_def)
      from a2(3) a1(3) have "recorded a2 = take (nat MAX_TRANSACTIONS)
          (recorded a @ transfer_entries h accounts n fromAccNum toAccNum amt p)"
        unfolding e by (simp only: take_take_append append_assoc)
      with a2 show ?thesis by blast
    qed
  qed
qed

lemma run_journal:
  "run h cs = Some (rcs, h') \<Longrightarrow> h p = Some a \<Longrightarrow> log_ok a \<Longrightarrow>
   \<exists>a'. h' p = Some a' \<and> log_ok a' \<and>
        recorded a' = take (nat MAX_TRANSACTIONS) (recorded a @ journal h cs p)"
proof (induction h cs arbitrary: rcs a rule: run.induct)
  case (1 h)
  then show ?case by (simp add: recorded_take)
next
  case (2 h q amt desc cs)
  from "2.prems"(1) obtain rc h1 rcs' where
    d: "deposit h q amt desc = Some (rc, h1)" and r: "run h1 cs = Some (rcs', h')"
    by (auto split: Option.bind_splits)
  from deposit_journal [OF d "2.prems"(2,3)] obtain a1 where a1: "h1 p = Some a1" "log_ok a1"
    "recorded a1 = take (nat MAX_TRANSACTIONS)
       (recorded a @ (if rc = 0 \<and> q = Ptr p then [entry DEPOSIT amt desc] else []))"
    by blast
  from "2.IH" [OF d refl r a1(1,2)] obtain a' where a': "h' p = Some a'" "log_ok a'"
    "recorded a' = take (nat MAX_TRANSACTIONS) (recorded a1 @ journal h1 cs p)"
    by blast
  from a'(3) a1(3) d have "recorded a' =
      take (nat MAX_TRANSACTIONS) (recorded a @ journal h (Deposit q amt desc # cs) p)"
    by (simp only: take_take_append append_assoc journal.simps option.case prod.case)
  with a' show ?case by blast
next
  case (3 h q amt desc cs)
  from "3.prems"(1) obtain rc h1 rcs' where
    w: "withdraw h q amt desc = Some (rc, h1)" and r: "run h1 cs = Some (rcs', h')"
    by (auto split: Option.bind_splits)
  from withdraw_journal [OF w "3.prems"(2,3)] obtain a1 where a1: "h1 p = Some a1" "log_ok a1"
    "recorded a1 = take (nat MAX_TRANSACTIONS)
       (recorded a @ (if rc = 0 \<and> q = Ptr p then [entry WITHDRAWAL amt desc] else []))"
    by blast
  from "3.IH" [OF w refl r a1(1,2)] obtain a' where a': "h' p = Some a'" "log_ok a'"
    "recorded a' = take (nat MAX_TRANSACTIONS) (recorded a1 @ journal h1 cs p)"
    by blast
  from a'(3) a1(3) w have "recorded a' =
      take (nat MAX_TRANSACTIONS) (recorded a @ journal h (Withdraw q amt desc # cs) p)"
    by (simp only: take_take_append append_assoc journal.simps option.case prod.case)
  with a' show ?case by blast
next
  case (4 h accounts totalAccounts fromAccNum toAccNum amt cs)
  from "4.prems"(1) obtain h1 where
    t: "transfer h accounts totalAccounts fromAccNum toAccNum amt = Some h1"
    and r: "run h1 cs = Some (rcs, h')"
    by (auto split: Option.bind_splits)
  from transfer_journal [OF t "4.prems"(2,3)] obtain a1 where a1: "h1 p = Some a1" "log_ok a1"
    "recorded a1 = take (nat MAX_TRANSACTIONS)
       (recorded a @ transfer_entries h accounts totalAccounts fromAccNum toAccNum amt p)"
    by blast
  from "4.IH" [OF t r a1(1,2)] obtain a' where a': "h' p = Some a'" "log_ok a'"
    "recorded a' = take (nat MAX_TRANSACTIONS) (recorded a1 @ journal h1 cs p)"
    by blast
  from a'(3) a1(3) t have "recorded a' =
      take (nat MAX_TRANSACTIONS)
        (recorded a @ journal h (Transfer accounts totalAccounts fromAccNum toAccNum amt # cs) p)"
    by (simp only: take_take_append append_assoc journal.simps option.case)
  with a' show ?case by blast
qed


lemma mixed_journal:
  "journal bank_dave mixed_calls 3 =
     [entry DEPOSIT 40 ''gift'', entry DEPOSIT 150 ''Transfer from'']"
  by code_simp

lemma later_journal:
  "Option.bind (run bank_dave mixed_calls) (\<lambda>(rcs, h). Some (journal h later_calls 3)) =
     Some [entry WITHDRAWAL 10 ''coffee'', entry WITHDRAWAL 100 ''Transfer to'']"
  by code_simp

text \<open>
  C10. Take an account that \<^verbatim>\<open>createAccount\<close> has just set up in a block with
  \<open>MAX_TRANSACTIONS\<close> slots, let a client run any sequence of calls of \<^verbatim>\<open>deposit\<close>,
  \<^verbatim>\<open>withdraw\<close> and \<^verbatim>\<open>transfer\<close>, on any pointers and registries, and then any further
  sequence. At both moments the account is still there and its transaction count lies
  between \<open>0\<close> and \<open>MAX_TRANSACTIONS\<close>. The slots below the count hold the transactions
  carried out on the account so far, in their order, as many as the capacity allows:
  kind, amount and the first ten bytes of the description of each. The count never goes
  down, and the transactions recorded at the earlier moment are the first of those
  recorded later, in the same slots: records are appended, never reordered or removed.
  The slots from the count on still hold what the block held at creation, so the
  records occupy exactly the slots below the count. This holds whatever the arithmetic
  of amounts is.
\<close>

theorem transaction_log_append_only:
  assumes "createAccount h0 (Some (p, blk)) accNum name = (q, h1)"
    and "length (transactions blk) = nat MAX_TRANSACTIONS"
    and "run h1 cs = Some (rcs, h2)" and "run h2 cs' = Some (rcs', h3)"
  shows "\<exists>a2 a3. h2 p = Some a2 \<and> h3 p = Some a3 \<and>
           0 \<le> transactionCount a2 \<and> transactionCount a2 \<le> transactionCount a3 \<and>
           transactionCount a3 \<le> MAX_TRANSACTIONS \<and>
           recorded a2 = take (nat (transactionCount a2)) (recorded a3) \<and>
           unused a3 = drop (nat (transactionCount a3)) (transactions blk) \<and>
           recorded a2 = take (nat MAX_TRANSACTIONS) (journal h1 cs p) \<and>
           recorded a3 = take (nat MAX_TRANSACTIONS) (journal h1 cs p @ journal h2 cs' p) \<and>
           transactionCount a2 = int (length (recorded a2)) \<and>
           transactionCount a3 = int (length (recorded a3))"
proof -
  let ?a1 = "blk\<lparr>accountNumber := accNum, holderName := strncpy name NAME_LENGTH,
                  balance := 0, transactionCount := 0\<rparr>"
  from assms(1) have h1: "h1 p = Some ?a1"
    by (auto simp: createAccount_def)
  from assms(2) have ok: "log_ok ?a1" by (simp add: log_ok_def)
  have e: "recorded ?a1 = []" by (simp add: recorded_def)
  from run_grows [OF assms(3) h1 ok] obtain a2 where a2: "h2 p = Some a2" "grows ?a1 a2"
    by blast
  then have ok2: "log_ok a2" by (simp add: grows_def)
  from run_grows [OF assms(4) a2(1) ok2] obtain a3 where a3: "h3 p = Some a3" "grows a2 a3"
    by blast
  then have ok3: "log_ok a3" by (simp add: grows_def)
  from a2(2) a3(2) have g13: "grows ?a1 a3" by (rule grows_trans)
  from a3(2) have c: "0 \<le> transactionCount a2" "transactionCount a2 \<le> transactionCount a3"
    "transactionCount a3 \<le> MAX_TRANSACTIONS"
    by (simp_all add: grows_def log_ok_def)
  from a3(2) have "take (nat (transactionCount a2)) (transactions a3) =
      take (nat (transactionCount a2)) (transactions a2)"
    by (simp add: grows_def)
  with c have r: "recorded a2 = take (nat (transactionCount a2)) (recorded a3)"
    by (simp add: recorded_def min_def)
  from g13 have u: "unused a3 = drop (nat (transactionCount a3)) (transactions blk)"
    by (simp add: grows_def unused_def)
  from run_journal [OF assms(3) h1 ok] a2(1) e
  have j2: "recorded a2 = take (nat MAX_TRANSACTIONS) (journal h1 cs p)"
    by auto
  from run_journal [OF assms(4) a2(1) ok2] a3(1)
  have "recorded a3 = take (nat MAX_TRANSACTIONS) (recorded a2 @ journal h2 cs' p)"
    by auto
  then have j3: "recorded a3 = take (nat MAX_TRANSACTIONS) (journal h1 cs p @ journal h2 cs' p)"
    unfolding j2 by (simp only: take_take_append)
  from ok2 ok3 c have n: "transactionCount a2 = int (length (recorded a2))"
    "transactionCount a3 = int (length (recorded a3))"
    by (simp_all add: length_recorded log_ok_def)
  from a2(1) a3(1) c r u j2 j3 n show ?thesis by blast
qed

theorem transaction_log_append_only_witness:
  "createAccount bank (Some (3, block)) 1004 ''Dave'' = (Ptr 3, bank_dave) \<and>
   length (transactions block) = nat MAX_TRANSACTIONS \<and>
   (\<exists>h2 h3. run bank_dave mixed_calls = Some ([0, - 1], h2) \<and>
             run h2 later_calls = Some ([0], h3) \<and>
     (\<exists>a2 a3. h2 3 = Some a2 \<and> h3 3 = Some a3 \<and>
         transactionCount a2 = 2 \<and> transactionCount a3 = 4 \<and>
         recorded a2 = [entry DEPOSIT 40 ''gift'', entry DEPOSIT 150 ''Transfer from''] \<and>
         recorded a3 = [entry DEPOSIT 40 ''gift'', entry DEPOSIT 150 ''Transfer from'',
                        entry WITHDRAWAL 10 ''coffee'', entry WITHDRAWAL 100 ''Transfer to''] \<and>
         unused a3 = drop 4 (transactions block)))"
proof -
  have len: "length (transactions block) = nat MAX_TRANSACTIONS"
    by (simp add: block_def)
  from mixed_runs obtain h2 where r2: "run bank_dave mixed_calls = Some ([0, - 1], h2)"
    by auto
  with mixed_then_later_runs obtain h3 where r3: "run h2 later_calls = Some ([0], h3)"
    by auto
  from later_journal r2 have lj: "journal h2 later_calls 3 =
      [entry WITHDRAWAL 10 ''coffee'', entry WITHDRAWAL 100 ''Transfer to'']"
    by simp
  from transaction_log_append_only [OF bank_dave_created len r2 r3]
  obtain a2 a3 where a: "h2 3 = Some a2" "h3 3 = Some a3"
    "unused a3 = drop (nat (transactionCount a3)) (transactions block)"
    "recorded a2 = take (nat MAX_TRANSACTIONS) (journal bank_dave mixed_calls 3)"
    "recorded a3 = take (nat MAX_TRANSACTIONS)
       (journal bank_dave mixed_calls 3 @ journal h2 later_calls 3)"
    "transactionCount a2 = int (length (recorded a2))"
    "transactionCount a3 = int (length (recorded a3))"
    by blast
  from a(4) have j2: "recorded a2 = [entry DEPOSIT 40 ''gift'', entry DEPOSIT 150 ''Transfer from'']"
    by (simp add: mixed_journal)
  from a(5) have j3: "recorded a3 = [entry DEPOSIT 40 ''gift'', entry DEPOSIT 150 ''Transfer from'',
                        entry WITHDRAWAL 10 ''coffee'', entry WITHDRAWAL 100 ''Transfer to'']"
    by (simp add: mixed_journal lj)
  from a(6) j2 have c2: "transactionCount a2 = 2" by simp
  from a(7) j3 have c3: "transactionCount a3 = 4" by simp
  from a(3) c3 have "unused a3 = drop 4 (transactions block)" by simp
  with bank_dave_created len r2 r3 a(1,2) c2 c3 j2 j3 show ?thesis by blast
qed

end
